theory Spec2Isabelle
  imports Complex_Main
begin

section \<open>JavaScript numbers\<close>

text \<open>
  The dispersion engine (\<^verbatim>\<open>web-app/src/lib/dispersion.ts\<close>) computes on JavaScript
  numbers, that is on IEEE 754 binary64 values. A number is modelled as a finite value,
  one of the two infinities, or NaN. A finite value \<open>Fin x\<close> stands for the double whose
  real value is \<open>x\<close>, and every arithmetic operation rounds its exact result to a double
  with \<open>rnd\<close>: to the nearest value with a 53-bit significand, ties to the even
  significand, to an infinity once the rounded magnitude reaches \<open>2\<^sup>1\<^sup>0\<^sup>2\<^sup>4\<close>, and on the
  grid of the subnormal numbers (multiples of \<open>2\<^sup>-\<^sup>1\<^sup>0\<^sup>7\<^sup>4\<close>) below \<open>2\<^sup>-\<^sup>1\<^sup>0\<^sup>2\<^sup>2\<close>, so
  that a small enough result underflows to zero. A division by zero gives an infinity or
  NaN, an undetermined form (\<open>\<infinity> - \<infinity>\<close>, \<open>0 \<cdot> \<infinity>\<close>, \<open>0 / 0\<close>, \<open>\<infinity> / \<infinity>\<close>) gives NaN,
  NaN propagates through every operation, and every comparison with NaN is false.

  Zero carries no sign. The divisors of this program that can be zero are a difference
  \<^verbatim>\<open>lam2 - coeffs.C[i]\<close> and the squares \<^verbatim>\<open>tau2\<close>, \<^verbatim>\<open>tau2 * tau2\<close>; IEEE 754 makes each of
  them \<open>+0\<close> when it is zero, so division treats a zero divisor as \<open>+0\<close>.
\<close>

datatype jsnum = Fin real | PInf | NInf | NaN

definition inf_of_sign :: "real \<Rightarrow> jsnum" where
  "inf_of_sign x = (if 0 < x then PInf else if x < 0 then NInf else NaN)"

text \<open>
  The binary exponent of a real, the spacing of the doubles around it (\<open>2\<^sup>-\<^sup>5\<^sup>2\<close> times the
  power of two below it, and \<open>2\<^sup>-\<^sup>1\<^sup>0\<^sup>7\<^sup>4\<close> in the subnormal range), rounding of a real to
  the nearest integer with ties to even, and rounding of a real to a double.
\<close>

definition expo :: "real \<Rightarrow> int" where
  "expo x = \<lfloor>log 2 \<bar>x\<bar>\<rfloor>"

definition quantum :: "real \<Rightarrow> real" where
  "quantum x = 2 powi (max (expo x) (- 1022) - 52)"

definition round_even :: "real \<Rightarrow> int" where
  "round_even r =
     (let f = \<lfloor>r\<rfloor>; d = r - of_int f in
      if d < 1 / 2 then f else if 1 / 2 < d then f + 1 else if even f then f else f + 1)"

definition rnd :: "real \<Rightarrow> jsnum" where
  "rnd x =
     (let y = of_int (round_even (x / quantum x)) * quantum x in
      if 2 powi 1024 \<le> \<bar>y\<bar> then inf_of_sign x else Fin y)"

text \<open>A decimal literal of the source denotes the double nearest to it.\<close>

definition js :: "real \<Rightarrow> jsnum" where
  "js x = rnd x"

instantiation jsnum :: "{plus, minus, times, inverse}"
begin

fun plus_jsnum :: "jsnum \<Rightarrow> jsnum \<Rightarrow> jsnum" where
  "Fin x + Fin y = rnd (x + y)"
| "NaN + _ = NaN"
| "_ + NaN = NaN"
| "PInf + NInf = NaN"
| "NInf + PInf = NaN"
| "PInf + _ = PInf"
| "_ + PInf = PInf"
| "NInf + _ = NInf"
| "_ + NInf = NInf"

fun minus_jsnum :: "jsnum \<Rightarrow> jsnum \<Rightarrow> jsnum" where
  "Fin x - Fin y = rnd (x - y)"
| "NaN - _ = NaN"
| "_ - NaN = NaN"
| "PInf - PInf = NaN"
| "NInf - NInf = NaN"
| "PInf - _ = PInf"
| "_ - PInf = NInf"
| "NInf - _ = NInf"
| "_ - NInf = PInf"

fun times_jsnum :: "jsnum \<Rightarrow> jsnum \<Rightarrow> jsnum" where
  "Fin x * Fin y = rnd (x * y)"
| "NaN * _ = NaN"
| "_ * NaN = NaN"
| "Fin x * PInf = inf_of_sign x"
| "Fin x * NInf = inf_of_sign (- x)"
| "PInf * Fin y = inf_of_sign y"
| "NInf * Fin y = inf_of_sign (- y)"
| "PInf * PInf = PInf"
| "PInf * NInf = NInf"
| "NInf * PInf = NInf"
| "NInf * NInf = PInf"

fun divide_jsnum :: "jsnum \<Rightarrow> jsnum \<Rightarrow> jsnum" where
  "divide_jsnum (Fin x) (Fin y) = (if y = 0 then inf_of_sign x else rnd (x / y))"
| "divide_jsnum NaN _ = NaN"
| "divide_jsnum _ NaN = NaN"
| "divide_jsnum (Fin x) PInf = Fin 0"
| "divide_jsnum (Fin x) NInf = Fin 0"
| "divide_jsnum PInf (Fin y) = (if 0 \<le> y then PInf else NInf)"
| "divide_jsnum NInf (Fin y) = (if 0 \<le> y then NInf else PInf)"
| "divide_jsnum PInf PInf = NaN"
| "divide_jsnum PInf NInf = NaN"
| "divide_jsnum NInf PInf = NaN"
| "divide_jsnum NInf NInf = NaN"

definition inverse_jsnum :: "jsnum \<Rightarrow> jsnum" where
  "inverse_jsnum x = Fin 1 div x"

instance ..

end

text \<open>The comparisons \<^verbatim>\<open><=\<close> and \<^verbatim>\<open><\<close>: false as soon as an operand is NaN.\<close>

fun js_le :: "jsnum \<Rightarrow> jsnum \<Rightarrow> bool" where
  "js_le (Fin x) (Fin y) = (x \<le> y)"
| "js_le NaN _ = False"
| "js_le _ NaN = False"
| "js_le NInf _ = True"
| "js_le _ PInf = True"
| "js_le _ _ = False"

fun js_lt :: "jsnum \<Rightarrow> jsnum \<Rightarrow> bool" where
  "js_lt (Fin x) (Fin y) = (x < y)"
| "js_lt NaN _ = False"
| "js_lt _ NaN = False"
| "js_lt PInf _ = False"
| "js_lt _ NInf = False"
| "js_lt _ _ = True"

text \<open>\<^verbatim>\<open>Math.max\<close> of two arguments returns NaN when either argument is NaN.\<close>

fun Math_max :: "jsnum \<Rightarrow> jsnum \<Rightarrow> jsnum" where
  "Math_max NaN _ = NaN"
| "Math_max _ NaN = NaN"
| "Math_max a b = (if js_le a b then b else a)"

text \<open>
  \<^verbatim>\<open>Math.sqrt\<close>: NaN on a negative argument, on \<open>-\<infinity>\<close> and on NaN, and the correctly
  rounded square root otherwise (the IEEE 754 operation, which the engines use).
\<close>

fun Math_sqrt :: "jsnum \<Rightarrow> jsnum" where
  "Math_sqrt (Fin x) = (if x < 0 then NaN else rnd (sqrt x))"
| "Math_sqrt PInf = PInf"
| "Math_sqrt NInf = NaN"
| "Math_sqrt NaN = NaN"

text \<open>
  \<^verbatim>\<open>Math.pow\<close> is called with the literal exponents 3 and 4 only. ECMAScript leaves its
  last bits to the implementation; it is modelled for a natural exponent as the repeated
  rounded product (\<^verbatim>\<open>Math.pow(x, 0)\<close> is 1 for every \<open>x\<close>, NaN included). The properties
  below use of it only that the power of a number of moderate size is a positive finite
  number of moderate size, and otherwise leave it as it is.
\<close>

fun Math_pow :: "jsnum \<Rightarrow> nat \<Rightarrow> jsnum" where
  "Math_pow x 0 = Fin 1"
| "Math_pow x (Suc n) = x * Math_pow x n"

text \<open>\<^verbatim>\<open>Math.PI\<close> and \<^verbatim>\<open>Math.LN2\<close> are the doubles nearest to \<open>\<pi>\<close> and to \<open>ln 2\<close>.\<close>

definition Math_PI :: jsnum where
  "Math_PI = rnd pi"

definition Math_LN2 :: jsnum where
  "Math_LN2 = rnd (ln 2)"

section \<open>Strings\<close>

text \<open>
  A string is a list of 8-bit characters: the model covers the strings whose UTF-16 code
  units are all below 256 (ASCII and Latin-1), which include every name of the registry;
  a string with a code unit from 256 on has no counterpart here. On these strings
  \<^verbatim>\<open>toLowerCase\<close> maps the letters \<open>A\<close> to \<open>Z\<close> (codes 65 to 90) and the Latin-1 capitals
  (codes 192 to 222 except the multiplication sign 215) to the code 32 higher, which sets
  bit 5 of the code, and leaves every other character as it is. \<^verbatim>\<open>trim\<close> removes white
  space and line terminators at both ends: tab, line feed, vertical tab, form feed,
  carriage return, space and the no-break space (code 160).
\<close>

definition toLowerChar :: "char \<Rightarrow> char" where
  "toLowerChar c =
     (let n = (of_char c :: nat) in
      if (65 \<le> n \<and> n \<le> 90) \<or> (192 \<le> n \<and> n \<le> 222 \<and> n \<noteq> 215)
      then (case c of Char b0 b1 b2 b3 b4 b5 b6 b7 \<Rightarrow> Char b0 b1 b2 b3 b4 True b6 b7)
      else c)"

definition toLowerCase :: "string \<Rightarrow> string" where
  "toLowerCase s = map toLowerChar s"

definition isWhiteSpace :: "char \<Rightarrow> bool" where
  "isWhiteSpace c = (let n = (of_char c :: nat) in (9 \<le> n \<and> n \<le> 13) \<or> n = 32 \<or> n = 160)"

definition trim :: "string \<Rightarrow> string" where
  "trim s = rev (dropWhile isWhiteSpace (rev (dropWhile isWhiteSpace s)))"

section \<open>Dispersion model registry\<close>

text \<open>
  \<^verbatim>\<open>type SellmeierCoeffs = { B: [number, number, number]; C: [number, number, number] }\<close>.
  The two fixed-length arrays are triples, read at an index 0, 1 or 2 by \<open>at3\<close>.
\<close>

record SellmeierCoeffs =
  B :: "jsnum \<times> jsnum \<times> jsnum"
  C :: "jsnum \<times> jsnum \<times> jsnum"

fun at3 :: "'a \<times> 'a \<times> 'a \<Rightarrow> nat \<Rightarrow> 'a" where
  "at3 (a, b, c) i = (if i = 0 then a else if i = 1 then b else c)"

definition coeffs :: "real \<Rightarrow> real \<Rightarrow> real \<Rightarrow> real \<Rightarrow> real \<Rightarrow> real \<Rightarrow> SellmeierCoeffs" where
  "coeffs b0 b1 b2 c0 c1 c2 = \<lparr> B = (js b0, js b1, js b2), C = (js c0, js c1, js c2) \<rparr>"

definition SELLMEIER_table :: "(string \<times> SellmeierCoeffs) list" where
  "SELLMEIER_table =
    [ (''N-BK7'', coeffs 1.03961212 0.231792344 1.01046945 0.00600069867 0.0200179144 103.560653),
      (''BK7'', coeffs 1.03961212 0.231792344 1.01046945 0.00600069867 0.0200179144 103.560653),
      (''N-SF11'', coeffs 1.73848403 0.31116824 1.17490871 0.0133711172 0.0619001176 121.419942),
      (''SF11'', coeffs 1.73848403 0.31116824 1.17490871 0.0133711172 0.0619001176 121.419942),
      (''Fused Silica'', coeffs 0.6961663 0.4079426 0.8974794 0.004679148 0.01351206 97.93432),
      (''Silica'', coeffs 0.6961663 0.4079426 0.8974794 0.004679148 0.01351206 97.93432),
      (''F2'', coeffs 1.31038764 0.196681836 0.966129764 0.00958633072 0.0457627625 99.2753302),
      (''N-SF5'', coeffs 1.31038764 0.196681836 0.966129764 0.00958633072 0.0457627625 99.2753302),
      (''N-SF10'', coeffs 1.61625974 0.259229334 0.96887106 0.0106200162 0.0473625942 119.248795),
      (''N-BAF10'', coeffs 1.5851495 0.143571385 1.08521269 0.00909730952 0.0424520636 105.613573),
      (''N-LAK9'', coeffs 1.41673927 0.126605356 1.28217827 0.00906333117 0.0493226978 95.6403971) ]"

definition SELLMEIER :: "string \<rightharpoonup> SellmeierCoeffs" where
  "SELLMEIER = map_of SELLMEIER_table"

text \<open>Map material names (lowercase) to Sellmeier key.\<close>

definition MATERIAL_TO_SELLMEIER_table :: "(string \<times> string) list" where
  "MATERIAL_TO_SELLMEIER_table =
    [ (''n-bk7'', ''N-BK7''), (''bk7'', ''N-BK7''), (''nbk7'', ''N-BK7''),
      (''n-sf11'', ''N-SF11''), (''sf11'', ''N-SF11''),
      (''fused silica'', ''Fused Silica''), (''fused-silica'', ''Fused Silica''),
      (''silica'', ''Fused Silica''),
      (''f2'', ''F2''), (''n-sf5'', ''N-SF5''), (''n-sf10'', ''N-SF10''),
      (''n-baf10'', ''N-BAF10''), (''baf10'', ''N-BAF10''),
      (''n-lak9'', ''N-LAK9''), (''lak9'', ''N-LAK9'') ]"

definition MATERIAL_TO_SELLMEIER :: "string \<rightharpoonup> string" where
  "MATERIAL_TO_SELLMEIER = map_of MATERIAL_TO_SELLMEIER_table"

text \<open>
  \<^verbatim>\<open>const key = MATERIAL_TO_SELLMEIER[material.toLowerCase().trim()]\<close>,
  \<^verbatim>\<open>return key ? SELLMEIER[key] ?? null : null\<close>. The result \<^verbatim>\<open>null\<close> is \<open>None\<close>.
  (A name inherited from \<^verbatim>\<open>Object.prototype\<close>, such as \<^verbatim>\<open>constructor\<close>, reads a
  value that is no key of \<^verbatim>\<open>SELLMEIER\<close>, and the result is \<^verbatim>\<open>null\<close> as well.)
\<close>

definition getSellmeier :: "string \<Rightarrow> SellmeierCoeffs option" where
  "getSellmeier material =
     (case MATERIAL_TO_SELLMEIER (trim (toLowerCase material)) of
        None \<Rightarrow> None
      | Some key \<Rightarrow> SELLMEIER key)"

section \<open>Refractive index evaluator\<close>

text \<open>
  Refractive index from Sellmeier, the wavelength in nm. The loop
  \<^verbatim>\<open>for (let i = 0; i < 3; i++) n2 += (coeffs.B[i] * lam2) / (lam2 - coeffs.C[i])\<close>
  is the fold over the indices 0, 1, 2, starting from \<^verbatim>\<open>n2 = 1\<close>.
\<close>

definition nFromSellmeier :: "jsnum \<Rightarrow> SellmeierCoeffs \<Rightarrow> jsnum" where
  "nFromSellmeier lambdaNm cf =
     (let lam = lambdaNm * js (1 / 10 ^ 3);
          lam2 = lam * lam;
          n2 = fold (\<lambda>i n2. n2 + (at3 (B cf) i * lam2) / (lam2 - at3 (C cf) i)) [0, 1, 2] (Fin 1)
      in Math_sqrt (Math_max n2 (Fin 1)))"

text \<open>Fallback: use constant n for unknown materials.\<close>

definition refractiveIndexAtWavelength :: "jsnum \<Rightarrow> string \<Rightarrow> jsnum \<Rightarrow> jsnum" where
  "refractiveIndexAtWavelength lambdaNm material nDefault =
     (case getSellmeier material of
        Some cf \<Rightarrow> nFromSellmeier lambdaNm cf
      | None \<Rightarrow> nDefault)"

section \<open>Derivative estimator\<close>

definition DEL :: jsnum where
  "DEL = Fin (1 / 2)"

definition d2n_dlambda2 :: "jsnum \<Rightarrow> SellmeierCoeffs \<Rightarrow> jsnum" where
  "d2n_dlambda2 lambdaNm cf =
     (let n0 = nFromSellmeier lambdaNm cf;
          nP = nFromSellmeier (lambdaNm + DEL) cf;
          nM = nFromSellmeier (lambdaNm - DEL) cf
      in (nP - Fin 2 * n0 + nM) / (DEL * DEL))"

definition d3n_dlambda3 :: "jsnum \<Rightarrow> SellmeierCoeffs \<Rightarrow> jsnum" where
  "d3n_dlambda3 lambdaNm cf =
     (let n2 = d2n_dlambda2 (lambdaNm + DEL) cf;
          n1 = d2n_dlambda2 (lambdaNm - DEL) cf
      in (n2 - n1) / (Fin 2 * DEL))"

section \<open>Unit-consistent dispersion calculator\<close>

definition C_LIGHT_MS :: jsnum where
  "C_LIGHT_MS = Fin 299792458"

text \<open>GDD in fs squared for a path length in mm; the wavelength in nm, \<open>d2n\<close> per nm squared.\<close>

definition gddFs2 :: "jsnum \<Rightarrow> jsnum \<Rightarrow> jsnum \<Rightarrow> jsnum" where
  "gddFs2 lambdaNm d2n_perNm2 L_mm =
     (let lam_m = lambdaNm * js (1 / 10 ^ 9);
          d2n_perM2 = d2n_perNm2 * js (10 ^ 18);
          c = C_LIGHT_MS;
          L = L_mm * js (1 / 10 ^ 3);
          gdd_s2 = (L * Math_pow lam_m 3 * d2n_perM2) / (Fin 2 * Math_PI * Math_PI * c * c)
      in gdd_s2 * js (10 ^ 30))"

text \<open>TOD in fs cubed for a path length in mm; \<open>d3n\<close> per nm cubed.\<close>

definition todFs3 :: "jsnum \<Rightarrow> jsnum \<Rightarrow> jsnum \<Rightarrow> jsnum \<Rightarrow> jsnum" where
  "todFs3 lambdaNm d2n_perNm2 d3n_perNm3 L_mm =
     (let lam_m = lambdaNm * js (1 / 10 ^ 9);
          d2n_perM2 = d2n_perNm2 * js (10 ^ 18);
          d3n_perM3 = d3n_perNm3 * js (10 ^ 27);
          c = C_LIGHT_MS;
          L = L_mm * js (1 / 10 ^ 3);
          term = lam_m * d3n_perM3 - Fin 2 * d2n_perM2;
          tod_s3 = (L * Math_pow lam_m 4 * term) / (Fin 4 * Math_pow Math_PI 3 * Math_pow c 3)
      in tod_s3 * js (10 ^ 45))"

section \<open>Pulse broadening predictor\<close>

definition predictedExitPulseWidthFs :: "jsnum \<Rightarrow> jsnum \<Rightarrow> jsnum \<Rightarrow> jsnum" where
  "predictedExitPulseWidthFs tauInFs gddTotalFs2 todTotalFs3 =
     (let a = Fin 4 * Math_LN2;
          tau2 = tauInFs * tauInFs;
          gddTerm = (a * a * gddTotalFs2 * gddTotalFs2) / tau2;
          todTerm = (a * a * a * todTotalFs3 * todTotalFs3) / (tau2 * tau2)
      in Math_sqrt (Math_max (Fin 0) (tau2 + gddTerm + todTerm)))"

section \<open>Stack aggregator\<close>

record SurfaceForDispersion =
  thickness :: jsnum
  material :: string
  type :: string
  refractiveIndex :: jsnum

text \<open>
  The fields of the result are named after the source's, with the suffix \<open>_of\<close> where the
  name is that of a function above.
\<close>

record DispersionResult =
  gddFs2_of :: jsnum
  todFs3_of :: jsnum
  predictedExitPulseWidthFs_of :: jsnum

text \<open>
  The body of \<^verbatim>\<open>for (const s of surfaces)\<close> on the running totals
  \<open>(gddTotal, todTotal)\<close>; each \<^verbatim>\<open>continue\<close> leaves them as they are.
\<close>

definition accumulate :: "jsnum \<Rightarrow> SurfaceForDispersion \<Rightarrow> jsnum \<times> jsnum \<Rightarrow> jsnum \<times> jsnum" where
  "accumulate lambdaNm s totals =
     (case totals of (gddTotal, todTotal) \<Rightarrow>
        if type s = ''Air'' \<or> js_le (refractiveIndex s) (js 1.01) then (gddTotal, todTotal)
        else (case getSellmeier (material s) of
                None \<Rightarrow> (gddTotal, todTotal)
              | Some cf \<Rightarrow>
                  (let L = thickness s;
                       d2n = d2n_dlambda2 lambdaNm cf;
                       d3n = d3n_dlambda3 lambdaNm cf
                   in (gddTotal + gddFs2 lambdaNm d2n L, todTotal + todFs3 lambdaNm d2n d3n L))))"

fun totals_loop :: "SurfaceForDispersion list \<Rightarrow> jsnum \<Rightarrow> jsnum \<times> jsnum \<Rightarrow> jsnum \<times> jsnum" where
  "totals_loop [] lambdaNm totals = totals"
| "totals_loop (s # surfaces) lambdaNm totals =
     totals_loop surfaces lambdaNm (accumulate lambdaNm s totals)"

definition computeDispersion ::
  "SurfaceForDispersion list \<Rightarrow> jsnum \<Rightarrow> jsnum \<Rightarrow> DispersionResult" where
  "computeDispersion surfaces lambdaNm pulseWidthFs =
     (case totals_loop surfaces lambdaNm (Fin 0, Fin 0) of (gddTotal, todTotal) \<Rightarrow>
        (let predExit = predictedExitPulseWidthFs pulseWidthFs gddTotal todTotal
         in \<lparr> gddFs2_of = gddTotal, todFs3_of = todTotal,
              predictedExitPulseWidthFs_of = predExit \<rparr>))"

section \<open>Notions used to state the properties\<close>

text \<open>A number that is a finite real and not negative.\<close>

fun finite_nonneg :: "jsnum \<Rightarrow> bool" where
  "finite_nonneg (Fin r) = (0 \<le> r)"
| "finite_nonneg _ = False"

text \<open>A real that is the value of a double: rounding leaves it as it is.\<close>

definition is_double :: "real \<Rightarrow> bool" where
  "is_double x = (rnd x = Fin x)"


text \<open>A finite positive number between two powers of two.\<close>

fun in_rng :: "int \<Rightarrow> int \<Rightarrow> jsnum \<Rightarrow> bool" where
  "in_rng a b (Fin y) = (2 powi a \<le> y \<and> y \<le> 2 powi b)"
| "in_rng a b _ = False"

section \<open>Rounding to a double\<close>

lemma two_powr_int: "(2::real) powr real_of_int k = 2 powi k"
  by (rule powr_real_of_int') simp_all

lemma expo_unique:
  assumes "2 powi e \<le> \<bar>x\<bar>" and "\<bar>x\<bar> < 2 powi (e + 1)"
  shows "expo x = e"
proof -
  have pos: "0 < \<bar>x\<bar>" using assms(1) zero_less_power_int [of "2::real" e] by linarith
  have a: "of_int e \<le> log 2 \<bar>x\<bar>"
    using assms(1) le_log_iff [of 2 "\<bar>x\<bar>" "of_int e"] pos by (simp only: two_powr_int)
  have "log 2 \<bar>x\<bar> < of_int (e + 1)"
    using assms(2) log_less_iff [of 2 "\<bar>x\<bar>" "of_int (e + 1)"] pos
    by (simp only: two_powr_int)
  then have b: "log 2 \<bar>x\<bar> < of_int e + 1" by simp
  show ?thesis unfolding expo_def using a b by (rule floor_unique)
qed

lemma expo_bounds:
  assumes "x \<noteq> 0"
  shows "2 powi (expo x) \<le> \<bar>x\<bar>" and "\<bar>x\<bar> < 2 powi (expo x + 1)"
proof -
  have pos: "0 < \<bar>x\<bar>" using assms by simp
  have "of_int (expo x) \<le> log 2 \<bar>x\<bar>" unfolding expo_def by simp
  then show "2 powi (expo x) \<le> \<bar>x\<bar>"
    using le_log_iff [of 2 "\<bar>x\<bar>" "of_int (expo x)"] pos by (simp only: two_powr_int)
  have "log 2 \<bar>x\<bar> < of_int (expo x + 1)" unfolding expo_def by linarith
  then show "\<bar>x\<bar> < 2 powi (expo x + 1)"
    using log_less_iff [of 2 "\<bar>x\<bar>" "of_int (expo x + 1)"] pos
    by (simp only: two_powr_int)
qed

lemma round_even_diff: "\<bar>of_int (round_even r) - r\<bar> \<le> 1 / 2"
proof -
  have "of_int \<lfloor>r\<rfloor> \<le> r" "r < of_int \<lfloor>r\<rfloor> + 1" by linarith+
  then show ?thesis unfolding round_even_def Let_def by (simp add: abs_le_iff)
qed

lemma round_even_near:
  assumes "\<bar>r - of_int n\<bar> < 1 / 2"
  shows "round_even r = n"
proof -
  have "\<bar>(of_int (round_even r) :: real) - of_int n\<bar> < 1"
    using round_even_diff [of r] assms by linarith
  then have "\<bar>round_even r - n\<bar> < 1"
    by (metis of_int_diff of_int_abs of_int_less_1_iff)
  then show ?thesis by linarith
qed

lemma round_even_of_int [simp]: "round_even (of_int n) = n"
  by (rule round_even_near) simp

lemma round_even_ge:
  assumes "of_int n \<le> r"
  shows "n \<le> round_even r"
proof -
  have "(of_int n :: real) - 1 / 2 \<le> of_int (round_even r)"
    using round_even_diff [of r] assms by linarith
  then have "(of_int n :: real) - 1 < of_int (round_even r)" by linarith
  then have "(of_int (n - 1) :: real) < of_int (round_even r)" by simp
  then have "n - 1 < round_even r" by (simp only: of_int_less_iff)
  then show ?thesis by linarith
qed

lemma round_even_le:
  assumes "r \<le> of_int n"
  shows "round_even r \<le> n"
proof -
  have "(of_int (round_even r) :: real) < of_int n + 1"
    using round_even_diff [of r] assms by linarith
  then have "(of_int (round_even r) :: real) < of_int (n + 1)" by simp
  then have "round_even r < n + 1" by (simp only: of_int_less_iff)
  then show ?thesis by linarith
qed

lemma powi2_add: "(2::real) powi a * 2 powi b = 2 powi (a + b)"
  by (simp add: power_int_add)

lemma powi2_diff: "(2::real) powi a / 2 powi b = 2 powi (a - b)"
  by (simp add: power_int_diff)

lemma powi2_mono: "a \<le> b \<Longrightarrow> (2::real) powi a \<le> 2 powi b"
  by (intro power_int_increasing) simp_all

lemma powi2_strict_mono: "a < b \<Longrightarrow> (2::real) powi a < 2 powi b"
  by (intro power_int_strict_increasing) simp_all

lemma quantum_pos: "0 < quantum x"
  by (simp add: quantum_def)

lemma round_even_0 [simp]: "round_even 0 = 0"
  using round_even_of_int [of 0] by simp

lemma rnd_0 [simp]: "rnd 0 = Fin 0"
  by (simp add: rnd_def Let_def)

lemma quantum_normal:
  assumes "2 powi e \<le> \<bar>x\<bar>" and "\<bar>x\<bar> < 2 powi (e + 1)" and "- 1022 \<le> e"
  shows "quantum x = 2 powi (e - 52)"
  using expo_unique [OF assms(1,2)] assms(3) by (simp add: quantum_def max_def)

lemma quantum_subnormal:
  assumes "\<bar>x\<bar> < 2 powi (- 1022)" and "x \<noteq> 0"
  shows "quantum x = 2 powi (- 1074)"
proof -
  have "expo x < - 1022"
  proof (rule ccontr)
    assume "\<not> expo x < - 1022"
    then have "- 1022 \<le> expo x" by simp
    then have "(2::real) powi (- 1022) \<le> 2 powi (expo x)"
      by (intro power_int_increasing) simp_all
    with expo_bounds(1) [OF assms(2)] assms(1) show False by linarith
  qed
  then show ?thesis by (simp add: quantum_def max_def)
qed

lemma round_even_abs_le:
  assumes "\<bar>r\<bar> \<le> of_int n"
  shows "\<bar>real_of_int (round_even r)\<bar> \<le> of_int n"
proof -
  have "r \<le> of_int n" "of_int (- n) \<le> r" using assms by simp_all
  then have "round_even r \<le> n" "- n \<le> round_even r"
    by (auto intro: round_even_le round_even_ge)
  then have "\<bar>round_even r\<bar> \<le> n" by linarith
  then show ?thesis by (metis of_int_abs of_int_le_iff)
qed

lemma rnd_normal:
  assumes "2 powi e \<le> \<bar>x\<bar>" and "\<bar>x\<bar> < 2 powi (e + 1)" and "- 1022 \<le> e" and "e \<le> 1022"
  shows "rnd x = Fin (of_int (round_even (x / 2 powi (e - 52))) * 2 powi (e - 52))"
proof -
  let ?q = "(2::real) powi (e - 52)"
  have q: "quantum x = ?q" using assms(1-3) by (rule quantum_normal)
  have qpos: "0 < ?q" by simp
  have "\<bar>x\<bar> / ?q < 2 powi (e + 1) / ?q"
    using assms(2) qpos by (simp add: divide_strict_right_mono)
  also have "2 powi (e + 1) / ?q = (2::real) powi (e + 1 - (e - 52))" by (rule powi2_diff)
  also have "e + 1 - (e - 52) = 53" by simp
  finally have "\<bar>x / ?q\<bar> \<le> of_int (2 ^ 53)" using qpos by simp
  then have "\<bar>real_of_int (round_even (x / ?q))\<bar> \<le> of_int (2 ^ 53)"
    by (rule round_even_abs_le)
  then have "\<bar>real_of_int (round_even (x / ?q))\<bar> \<le> 2 powi 53" by simp
  then have "\<bar>real_of_int (round_even (x / ?q))\<bar> * ?q \<le> 2 powi 53 * ?q"
    using qpos by (intro mult_right_mono) simp_all
  also have "2 powi 53 * ?q = 2 powi (53 + (e - 52))" by (rule powi2_add)
  also have "\<dots> \<le> 2 powi 1023" using assms(4) by (intro powi2_mono) simp
  also have "\<dots> < (2::real) powi 1024" by (intro powi2_strict_mono) simp
  finally have "\<bar>real_of_int (round_even (x / ?q)) * ?q\<bar> < 2 powi 1024"
    using qpos by (simp add: abs_mult del: power_int_numeral)
  then show ?thesis unfolding rnd_def Let_def q by (simp del: power_int_numeral)
qed

lemma abs_div_quantum: "\<bar>x / quantum x\<bar> \<le> of_int (2 ^ 53)"
proof (cases "x = 0")
  case True
  then show ?thesis by simp
next
  case False
  let ?k = "max (expo x) (- 1022)"
  have "\<bar>x\<bar> < 2 powi (expo x + 1)" using False by (rule expo_bounds(2))
  also have "\<dots> \<le> 2 powi (?k + 1)" by (intro powi2_mono) simp
  also have "?k + 1 = 53 + (?k - 52)" by simp
  also have "2 powi (53 + (?k - 52)) = 2 powi 53 * quantum x"
    unfolding quantum_def by (rule powi2_add [symmetric])
  finally have "\<bar>x\<bar> / quantum x < 2 powi 53"
    using quantum_pos [of x] by (simp add: pos_divide_less_eq)
  then show ?thesis using quantum_pos [of x] by simp
qed

lemma rnd_cases:
  obtains (finite) n where "rnd x = Fin (of_int n * quantum x)" and "\<bar>n\<bar> \<le> 2 ^ 53"
      and "\<bar>of_int n * quantum x\<bar> < 2 powi 1024" and "n = round_even (x / quantum x)"
  | (overflow) "rnd x = inf_of_sign x" and "x \<noteq> 0"
proof (cases "2 powi 1024 \<le> \<bar>of_int (round_even (x / quantum x)) * quantum x\<bar>")
  case True
  then have "x \<noteq> 0" by auto
  moreover have "rnd x = inf_of_sign x" using True by (simp add: rnd_def Let_def del: power_int_numeral)
  ultimately show ?thesis by (rule overflow [rotated])
next
  case False
  let ?n = "round_even (x / quantum x)"
  have "\<bar>real_of_int ?n\<bar> \<le> of_int (2 ^ 53)"
    using abs_div_quantum by (rule round_even_abs_le)
  then have "\<bar>?n\<bar> \<le> 2 ^ 53" by (metis of_int_abs of_int_le_iff)
  moreover have "rnd x = Fin (of_int ?n * quantum x)"
    using False by (simp add: rnd_def Let_def del: power_int_numeral)
  ultimately show ?thesis using False by (intro finite [of ?n]) simp_all
qed

lemma rnd_neq_NaN [simp]: "rnd x \<noteq> NaN"
  by (cases x rule: rnd_cases) (auto simp: inf_of_sign_def)

lemma rnd_nonneg:
  assumes "0 \<le> x"
  shows "js_le (Fin 0) (rnd x)"
proof (cases x rule: rnd_cases)
  case (finite n)
  have "0 \<le> x / quantum x" using assms quantum_pos [of x] by simp
  then have "0 \<le> n" unfolding finite(4) using round_even_ge [of 0] by simp
  then show ?thesis using finite(1) quantum_pos [of x] by simp
next
  case overflow
  then show ?thesis using assms by (simp add: inf_of_sign_def)
qed

lemma rnd_nonpos:
  assumes "x \<le> 0"
  shows "js_le (rnd x) (Fin 0)"
proof (cases x rule: rnd_cases)
  case (finite n)
  have "x / quantum x \<le> 0" using assms quantum_pos [of x] by (simp add: divide_le_0_iff)
  then have "n \<le> 0" unfolding finite(4) using round_even_le [of _ 0] by simp
  then show ?thesis using finite(1) quantum_pos [of x] by (simp add: mult_le_0_iff)
next
  case overflow
  then show ?thesis using assms by (simp add: inf_of_sign_def)
qed


lemma rnd_subnormal:
  assumes "\<bar>x\<bar> < 2 powi (- 1022)"
  shows "rnd x = Fin (of_int (round_even (x / 2 powi (- 1074))) * 2 powi (- 1074))"
proof (cases "x = 0")
  case True
  then show ?thesis by simp
next
  case False
  let ?q = "(2::real) powi (- 1074)"
  have q: "quantum x = ?q" using assms False by (rule quantum_subnormal)
  show ?thesis
  proof (cases x rule: rnd_cases)
    case (finite n)
    then show ?thesis unfolding q by simp
  next
    case overflow
    have "\<bar>x\<bar> < 2 powi 1024"
      using assms powi2_strict_mono [of "- 1022" 1024] by (simp del: power_int_numeral power_int_numeral_neg_numeral)
    moreover
    have "rnd x \<noteq> inf_of_sign x"
    proof
      assume "rnd x = inf_of_sign x"
      have "\<bar>x / ?q\<bar> \<le> of_int (2 ^ 53)" using abs_div_quantum [of x] unfolding q .
      then have "\<bar>real_of_int (round_even (x / ?q))\<bar> \<le> of_int (2 ^ 53)" by (rule round_even_abs_le)
      then have "\<bar>real_of_int (round_even (x / ?q))\<bar> * ?q \<le> 2 powi 53 * ?q"
        by (intro mult_right_mono) simp_all
      also have "2 powi 53 * ?q = 2 powi (53 + - 1074)" by (rule powi2_add)
      also have "\<dots> < 2 powi 1024" by (intro powi2_strict_mono) simp
      finally have "\<not> 2 powi 1024 \<le> \<bar>real_of_int (round_even (x / ?q)) * ?q\<bar>"
        by (simp add: abs_mult del: power_int_numeral power_int_numeral_neg_numeral)
      then have "rnd x = Fin (real_of_int (round_even (x / ?q)) * ?q)"
        unfolding rnd_def Let_def q by (simp del: power_int_numeral power_int_numeral_neg_numeral)
      with \<open>rnd x = inf_of_sign x\<close> show False by (simp add: inf_of_sign_def split: if_splits)
    qed
    ultimately show ?thesis using overflow by simp
  qed
qed

lemma rnd_tiny:
  assumes "\<bar>x\<bar> < 2 powi (- 1075)"
  shows "rnd x = Fin 0"
proof -
  have "\<bar>x\<bar> < 2 powi (- 1022)"
    using assms powi2_strict_mono [of "- 1075" "- 1022"]
    by (simp del: power_int_numeral power_int_numeral_neg_numeral)
  then have r: "rnd x = Fin (of_int (round_even (x / 2 powi (- 1074))) * 2 powi (- 1074))"
    by (rule rnd_subnormal)
  have "\<bar>x\<bar> / 2 powi (- 1074) < 2 powi (- 1075) / 2 powi (- 1074)"
    using assms by (intro divide_strict_right_mono) simp_all
  also have "(2::real) powi (- 1075) / 2 powi (- 1074) = 2 powi (- 1075 - (- 1074))" by (rule powi2_diff)
  also have "\<dots> = 1 / 2" by simp
  finally have "\<bar>x / 2 powi (- 1074) - of_int 0\<bar> < 1 / 2" by simp
  then have "round_even (x / 2 powi (- 1074)) = 0" by (rule round_even_near)
  then show ?thesis unfolding r by simp
qed

lemma powi2_le_cancel:
  assumes "(2::real) powi a < 2 powi b"
  shows "a < b"
proof (rule ccontr)
  assume "\<not> a < b"
  then have "(2::real) powi b \<le> 2 powi a" by (intro powi2_mono) simp
  with assms show False by simp
qed

lemma powi2_nonneg_int: "0 \<le> k \<Longrightarrow> (2::real) powi k = of_int (2 ^ nat k)"
  by (simp add: power_int_def)

lemma rnd_range:
  assumes "2 powi a \<le> x" and "x \<le> 2 powi b" and "- 1022 \<le> a" and "b \<le> 1022"
  shows "\<exists>y. rnd x = Fin y \<and> 2 powi a \<le> y \<and> y \<le> 2 powi b"
proof -
  have xpos: "0 < x" using assms(1) zero_less_power_int [of "2::real" a] by linarith
  define e where "e = expo x"
  have lo: "2 powi e \<le> x" and hi: "x < 2 powi (e + 1)"
    using expo_bounds [of x] xpos by (simp_all add: e_def)
  have ae: "a \<le> e"
  proof -
    have "(2::real) powi a < 2 powi (e + 1)" using assms(1) hi by linarith
    then have "a < e + 1" by (rule powi2_le_cancel)
    then show ?thesis by simp
  qed
  have eb: "e \<le> b"
  proof -
    have "(2::real) powi e < 2 powi (b + 1)"
      using lo assms(2) powi2_strict_mono [of b "b + 1"] by simp
    then have "e < b + 1" by (rule powi2_le_cancel)
    then show ?thesis by simp
  qed
  let ?q = "(2::real) powi (e - 52)"
  have qpos: "0 < ?q" by simp
  have r: "rnd x = Fin (of_int (round_even (x / ?q)) * ?q)"
    using lo hi ae eb assms(3,4) xpos by (intro rnd_normal) simp_all
  have q52: "2 powi 52 * ?q = 2 powi e"
    using powi2_add [of 52 "e - 52"] by simp
  have q53: "2 powi 53 * ?q = 2 powi (e + 1)"
    using powi2_add [of 53 "e - 52"] by (simp add: add.commute)
  have "2 powi 52 * ?q \<le> x" using lo q52 by simp
  then have "of_int (2 ^ 52) \<le> x / ?q" using qpos by (simp add: pos_le_divide_eq)
  then have "2 ^ 52 \<le> round_even (x / ?q)" by (rule round_even_ge)
  then have "of_int (2 ^ 52) \<le> real_of_int (round_even (x / ?q))" by (simp only: of_int_le_iff)
  then have "2 powi 52 \<le> real_of_int (round_even (x / ?q))" by simp
  then have "2 powi 52 * ?q \<le> real_of_int (round_even (x / ?q)) * ?q"
    using qpos by (intro mult_right_mono) simp_all
  then have low: "2 powi e \<le> real_of_int (round_even (x / ?q)) * ?q" unfolding q52 .
  have up: "real_of_int (round_even (x / ?q)) * ?q \<le> 2 powi b"
  proof (cases "e = b")
    case True
    then have "x = 2 powi e" using lo assms(2) by simp
    then have "x / ?q = of_int (2 ^ 52)" using q52 qpos by (simp add: field_simps)
    then have "round_even (x / ?q) = 2 ^ 52" by (simp only: round_even_of_int)
    then show ?thesis using q52 True by simp
  next
    case False
    then have "e + 1 \<le> b" using eb by simp
    have "x < of_int (2 ^ 53) * ?q" using hi q53 by simp
    then have "x / ?q \<le> of_int (2 ^ 53)" using qpos by (simp add: pos_divide_le_eq)
    then have "round_even (x / ?q) \<le> 2 ^ 53" by (rule round_even_le)
    then have "real_of_int (round_even (x / ?q)) \<le> of_int (2 ^ 53)" by (simp only: of_int_le_iff)
    then have "real_of_int (round_even (x / ?q)) * ?q \<le> of_int (2 ^ 53) * ?q"
      using qpos by (intro mult_right_mono) simp_all
    also have "\<dots> = 2 powi (e + 1)" using q53 by simp
    also have "\<dots> \<le> 2 powi b" using \<open>e + 1 \<le> b\<close> by (rule powi2_mono)
    finally show ?thesis .
  qed
  have "(2::real) powi a \<le> 2 powi e" using ae by (rule powi2_mono)
  with low up r show ?thesis by auto
qed

lemma rnd_scaled_int:
  assumes n: "\<bar>n\<bar> \<le> 2 ^ 53" and k: "- 1074 \<le> k"
    and b: "\<bar>real_of_int n * 2 powi k\<bar> < 2 powi 1024"
  shows "rnd (of_int n * 2 powi k) = Fin (of_int n * 2 powi k)"
proof (cases "n = 0")
  case True
  then show ?thesis by simp
next
  case False
  let ?y = "real_of_int n * 2 powi k"
  have y0: "?y \<noteq> 0" using False by simp
  define e where "e = max (expo ?y) (- 1022)"
  have q: "quantum ?y = 2 powi (e - 52)" by (simp add: quantum_def e_def)
  have "\<exists>m::int. ?y / quantum ?y = of_int m"
  proof (cases "e - 52 \<le> k")
    case True
    have "?y / quantum ?y = of_int n * (2 powi k / 2 powi (e - 52))" unfolding q by simp
    also have "2 powi k / 2 powi (e - 52) = (2::real) powi (k - (e - 52))" by (rule powi2_diff)
    also have "\<dots> = of_int (2 ^ nat (k - (e - 52)))" using True by (intro powi2_nonneg_int) simp
    finally have "?y / quantum ?y = of_int (n * 2 ^ nat (k - (e - 52)))" by simp
    then show ?thesis by blast
  next
    case False
    then have ke: "k + 53 \<le> e" by simp
    have "k + 53 \<le> expo ?y" using ke k by (simp add: e_def max_def split: if_splits)
    then have "(2::real) powi (k + 53) \<le> 2 powi (expo ?y)" by (rule powi2_mono)
    also have "\<dots> \<le> \<bar>?y\<bar>" using y0 by (rule expo_bounds(1))
    finally have "2 powi 53 * 2 powi k \<le> \<bar>real_of_int n\<bar> * 2 powi k"
      using powi2_add [of 53 k] by (simp add: abs_mult add.commute)
    then have "(2::real) powi 53 \<le> \<bar>real_of_int n\<bar>" by simp
    moreover have "\<bar>real_of_int n\<bar> \<le> 2 powi 53"
      using n by (metis of_int_abs of_int_le_iff of_int_numeral of_int_power power_int_numeral)
    ultimately have n53: "\<bar>real_of_int n\<bar> = 2 powi 53" by simp
    have "\<bar>?y\<bar> = 2 powi (53 + k)" using n53 powi2_add [of 53 k] by (simp add: abs_mult)
    then have "\<bar>?y\<bar> < 2 powi (53 + k + 1)" using powi2_strict_mono [of "53 + k" "53 + k + 1"] by simp
    with expo_bounds(1) [OF y0] have "(2::real) powi (expo ?y) < 2 powi (53 + k + 1)" by linarith
    then have "expo ?y < 53 + k + 1" by (rule powi2_le_cancel)
    then have "e \<le> k + 53" using k by (simp add: e_def)
    with ke have e: "e - 52 = k + 1" by simp
    have "?y / quantum ?y = of_int n * (2 powi k / 2 powi (k + 1))" unfolding q e by simp
    also have "2 powi k / 2 powi (k + 1) = (2::real) powi (k - (k + 1))" by (rule powi2_diff)
    also have "\<dots> = 1 / 2" by simp
    finally have h: "?y / quantum ?y = of_int n / 2" by simp
    have "\<bar>n\<bar> = 2 ^ 53" using n53 by (metis of_int_abs of_int_eq_iff of_int_numeral of_int_power power_int_numeral)
    then have "n = 2 ^ 53 \<or> n = - (2 ^ 53)" by linarith
    then have "real_of_int n / 2 = of_int (2 ^ 52) \<or> real_of_int n / 2 = of_int (- (2 ^ 52))"
      by auto
    with h show ?thesis by metis
  qed
  then obtain m :: int where m: "?y / quantum ?y = of_int m" by blast
  have "of_int m * quantum ?y = ?y" using m quantum_pos [of ?y] by (simp add: field_simps)
  then show ?thesis
    using b unfolding rnd_def Let_def m round_even_of_int
    by (simp del: power_int_numeral)
qed

lemma rnd_idem:
  assumes "rnd x = Fin y"
  shows "rnd y = Fin y"
proof (cases x rule: rnd_cases)
  case (finite n)
  have y: "y = of_int n * 2 powi (max (expo x) (- 1022) - 52)"
    using finite(1) assms by (simp add: quantum_def)
  show ?thesis unfolding y
    using finite(2,3) by (intro rnd_scaled_int) (simp_all add: quantum_def del: power_int_numeral)
next
  case overflow
  then show ?thesis using assms by (simp add: inf_of_sign_def split: if_splits)
qed

lemma rnd_of_int:
  assumes "\<bar>n\<bar> \<le> 2 ^ 53"
  shows "rnd (of_int n) = Fin (of_int n)"
proof -
  have "\<bar>real_of_int n\<bar> \<le> 2 powi 53"
    using assms by (metis of_int_abs of_int_le_iff of_int_numeral of_int_power power_int_numeral)
  also have "\<dots> < 2 powi 1024" by (intro powi2_strict_mono) simp
  finally have "\<bar>real_of_int n * 2 powi 0\<bar> < 2 powi 1024" by (simp del: power_int_numeral)
  with rnd_scaled_int [OF assms, of 0] show ?thesis by (simp del: power_int_numeral)
qed


lemma powi2_add': "c = a + b \<Longrightarrow> (2::real) powi a * 2 powi b = 2 powi c"
  by (simp add: powi2_add)

lemma powi2_twice: "c = a + 1 \<Longrightarrow> (2::real) powi a + 2 powi a = 2 powi c"
  using powi2_add [of 1 a] by (simp add: add.commute)

lemma rnd_repr:
  assumes td: "rnd t = Fin t" and lo: "2 powi k \<le> t" and hi: "t < 2 powi (k + 1)"
    and k: "- 1022 \<le> k" "k \<le> 1022"
  obtains m :: int where "t = of_int m * 2 powi (k - 52)" and "2 ^ 52 \<le> m" and "m < 2 ^ 53"
proof -
  let ?u = "(2::real) powi (k - 52)"
  have tpos: "0 < t" using lo zero_less_power_int [of "2::real" k] by linarith
  have "rnd t = Fin (of_int (round_even (t / ?u)) * ?u)"
    using lo hi k tpos by (intro rnd_normal) simp_all
  with td have t: "t = of_int (round_even (t / ?u)) * ?u" by simp
  define m where "m = round_even (t / ?u)"
  have tm: "t = of_int m * ?u" using t by (simp add: m_def)
  have u52: "2 powi 52 * ?u = 2 powi k" using powi2_add [of 52 "k - 52"] by simp
  have u53: "2 powi 53 * ?u = 2 powi (k + 1)" using powi2_add [of 53 "k - 52"] by (simp add: add.commute)
  have "2 powi 52 * ?u \<le> of_int m * ?u" using lo tm u52 by simp
  then have "(2::real) powi 52 \<le> of_int m" by simp
  then have "real_of_int (2 ^ 52) \<le> of_int m" by simp
  then have m1: "2 ^ 52 \<le> m" by (simp only: of_int_le_iff)
  have "of_int m * ?u < 2 powi 53 * ?u" using hi tm u53 by simp
  then have "of_int m < (2::real) powi 53" by simp
  then have "real_of_int m < of_int (2 ^ 53)" by simp
  then have m2: "m < 2 ^ 53" by (simp only: of_int_less_iff)
  from tm m1 m2 show ?thesis by (rule that)
qed

lemma rnd_sqrt_square:
  assumes td: "rnd t = Fin t" and lo: "2 powi (- 511) \<le> t" and hi: "t < 2 powi 511"
    and sq: "rnd (t * t) = Fin t2"
  shows "rnd (sqrt t2) = Fin t"
proof -
  have tpos: "0 < t" using lo zero_less_power_int [of "2::real" "- 511"] by linarith
  define k where "k = expo t"
  have kb: "2 powi k \<le> t" "t < 2 powi (k + 1)"
    using expo_bounds [of t] tpos by (simp_all add: k_def)
  have k1: "- 511 \<le> k"
  proof -
    have "(2::real) powi (- 511) < 2 powi (k + 1)" using lo kb(2) by linarith
    then have "- 511 < k + 1" by (rule powi2_le_cancel)
    then show ?thesis by simp
  qed
  have k2: "k \<le> 510"
  proof -
    have "(2::real) powi k < 2 powi 511" using hi kb(1) by linarith
    then have "k < 511" by (rule powi2_le_cancel)
    then show ?thesis by simp
  qed
  let ?u = "(2::real) powi (k - 52)"
  have upos: "0 < ?u" by simp
  have kr: "- 1022 \<le> k" "k \<le> 1022" using k1 k2 by simp_all
  obtain m :: int where tm: "t = of_int m * ?u" and m1: "2 ^ 52 \<le> m" and m2: "m < 2 ^ 53"
    using rnd_repr [OF td kb kr] by blast
  have u52: "2 powi 52 * ?u = 2 powi k" using powi2_add [of 52 "k - 52"] by simp
  have u53: "2 powi 53 * ?u = 2 powi (k + 1)" using powi2_add [of 53 "k - 52"] by (simp add: add.commute)
  have kk: "(2::real) powi k * 2 powi k = 2 powi (2 * k)" using powi2_add [of k k] by simp
  show ?thesis
  proof (cases "m = 2 ^ 52")
    case True
    then have t: "t = 2 powi k" using tm u52 by simp
    have "rnd (of_int 1 * 2 powi (2 * k)) = Fin (of_int 1 * 2 powi (2 * k))"
    proof (rule rnd_scaled_int)
      have "(2::real) powi (2 * k) < 2 powi 1024" using k2 by (intro powi2_strict_mono) simp
      then show "\<bar>real_of_int 1 * 2 powi (2 * k)\<bar> < 2 powi 1024" by (simp del: power_int_numeral)
    qed (use k1 in simp_all)
    then have "rnd (t * t) = Fin (t * t)" unfolding t kk by simp
    with sq have "t2 = t * t" by simp
    then have "sqrt t2 = t" using tpos by simp
    then show ?thesis using td by simp
  next
    case False
    then have "2 ^ 52 + 1 \<le> m" using m1 by simp
    then have a: "real_of_int (2 ^ 52 + 1) \<le> of_int m" by (simp only: of_int_le_iff)
    have a': "real_of_int (2 ^ 52 + 1) = 2 powi 52 + 1" by simp
    have "2 powi k + ?u = (2 powi 52 + 1) * ?u"
      unfolding u52 [symmetric] by (simp only: distrib_right mult_1)
    also have "\<dots> \<le> of_int m * ?u"
      using a [unfolded a'] by (rule mult_right_mono) simp
    finally have tlo: "2 powi k + ?u \<le> t" using tm by simp
    have "m \<le> 2 ^ 53 - 1" using m2 by simp
    then have c: "real_of_int m \<le> of_int (2 ^ 53 - 1)" by (simp only: of_int_le_iff)
    have c': "real_of_int (2 ^ 53 - 1) = 2 powi 53 - 1" by simp
    have "of_int m * ?u \<le> (2 powi 53 - 1) * ?u"
      using c [unfolded c'] by (rule mult_right_mono) simp
    also have "\<dots> = 2 powi (k + 1) - ?u"
      unfolding u53 [symmetric] by (simp only: left_diff_distrib mult_1)
    finally have thi: "t \<le> 2 powi (k + 1) - ?u" using tm by simp
    define x where "x = t * t"
    have xlo: "2 powi (2 * k) \<le> x"
      unfolding x_def kk [symmetric] using kb(1) tpos by (intro mult_mono) simp_all
    have "x < 2 powi (k + 1) * 2 powi (k + 1)"
      unfolding x_def using kb(2) tpos by (intro mult_strict_mono) simp_all
    also have "\<dots> = 2 powi (2 * k + 2)" using powi2_add [of "k + 1" "k + 1"] by simp
    finally have xhi: "x < 2 powi (2 * k + 2)" .
    have xpos: "0 < x" using tpos by (simp add: x_def)
    define e where "e = expo x"
    have eb: "2 powi e \<le> x" "x < 2 powi (e + 1)"
      using expo_bounds [of x] xpos by (simp_all add: e_def)
    have e1: "2 * k \<le> e"
    proof -
      have "(2::real) powi (2 * k) < 2 powi (e + 1)" using xlo eb(2) by linarith
      then have "2 * k < e + 1" by (rule powi2_le_cancel)
      then show ?thesis by simp
    qed
    have e2: "e \<le> 2 * k + 1"
    proof -
      have "(2::real) powi e < 2 powi (2 * k + 2)" using xhi eb(1) by linarith
      then have "e < 2 * k + 2" by (rule powi2_le_cancel)
      then show ?thesis by simp
    qed
    let ?q = "(2::real) powi (e - 52)"
    have qpos: "0 < ?q" by simp
    have r: "rnd x = Fin (of_int (round_even (x / ?q)) * ?q)"
      using eb e1 e2 k1 k2 xpos by (intro rnd_normal) simp_all
    define n where "n = round_even (x / ?q)"
    have t2: "t2 = of_int n * ?q" using r sq by (simp add: x_def n_def)
    have "\<bar>of_int n - x / ?q\<bar> \<le> 1 / 2" unfolding n_def by (rule round_even_diff)
    then have "\<bar>of_int n - x / ?q\<bar> * ?q \<le> 1 / 2 * ?q" by (intro mult_right_mono) simp_all
    moreover have "(of_int n - x / ?q) * ?q = t2 - x"
      unfolding t2 using qpos by (simp add: field_simps)
    then have "\<bar>of_int n - x / ?q\<bar> * ?q = \<bar>t2 - x\<bar>"
      using qpos by (metis abs_mult abs_of_pos)
    ultimately have err: "\<bar>t2 - x\<bar> \<le> ?q / 2" by simp
    have q52: "2 powi 52 * ?q = 2 powi e" using powi2_add [of 52 "e - 52"] by simp
    have "2 powi 52 * ?q \<le> x" using eb(1) q52 by simp
    then have "of_int (2 ^ 52) \<le> x / ?q" using qpos by (simp add: pos_le_divide_eq)
    then have "2 ^ 52 \<le> n" unfolding n_def by (rule round_even_ge)
    then have "of_int (2 ^ 52) \<le> real_of_int n" by (simp only: of_int_le_iff)
    then have "2 powi 52 \<le> real_of_int n" by simp
    then have "2 powi 52 * ?q \<le> real_of_int n * ?q" by (intro mult_right_mono) simp_all
    then have t2lo: "2 powi e \<le> t2" unfolding q52 t2 .
    then have t2pos: "0 < t2" using zero_less_power_int [of "2::real" e] by linarith
    define y where "y = sqrt t2"
    have ypos: "0 < y" using t2pos by (simp add: y_def)
    have yy: "y * y = t2" using t2pos by (simp add: y_def)
    have fac: "(y - t) * (y + t) = t2 - x" unfolding x_def yy [symmetric] by (simp add: algebra_simps)
    have main: "?q < ?u * (y + t)"
    proof (cases "e = 2 * k")
      case True
      have "?q = 2 powi k * ?u" using powi2_add [of k "k - 52"] True by simp
      also have "\<dots> < (y + t) * ?u" using kb(1) ypos by (intro mult_strict_right_mono) simp_all
      finally show ?thesis by (simp add: mult.commute)
    next
      case False
      then have e: "e = 2 * k + 1" using e1 e2 by simp
      have "(2::real) powi (2 * k + 1) + 2 powi (2 * k + 1) = 2 powi (2 * k + 2)"
        by (rule powi2_twice) simp
      moreover have "(2::real) powi (k + 1) * 2 powi (k + 1) = 2 powi (2 * k + 2)"
        by (rule powi2_add') simp
      ultimately
      have p: "(2::real) powi (2 * k + 1) + 2 powi (2 * k + 1) = 2 powi (k + 1) * 2 powi (k + 1)"
        by simp
      have "2 powi (2 * k + 1) \<le> x" using eb(1) e by simp
      moreover have "2 powi (2 * k + 1) \<le> y * y" using t2lo e yy by simp
      moreover have "0 < 2 * (y * t)" using ypos tpos by simp
      ultimately have "2 powi (k + 1) * 2 powi (k + 1) < (y + t) * (y + t)"
        unfolding p [symmetric] x_def by (simp add: algebra_simps)
      then have big: "2 powi (k + 1) < y + t"
        using ypos tpos by (metis add_pos_pos less_eq_real_def mult_mono not_le zero_le_power_int zero_le_numeral)
      have "?q = 2 powi (k + 1) * ?u" using powi2_add [of "k + 1" "k - 52"] e by simp
      also have "\<dots> < (y + t) * ?u" using big by (intro mult_strict_right_mono) simp_all
      finally show ?thesis by (simp add: mult.commute)
    qed
    have sum_pos: "0 < y + t" using ypos tpos by simp
    have "\<bar>y - t\<bar> * (y + t) = \<bar>t2 - x\<bar>"
      using fac sum_pos by (metis abs_mult abs_of_pos)
    also have "\<dots> \<le> ?q / 2" by (rule err)
    also have "\<dots> < ?u * (y + t) / 2" using main by simp
    finally have "\<bar>y - t\<bar> * (y + t) < (?u / 2) * (y + t)" by simp
    then have near: "\<bar>y - t\<bar> < ?u / 2" using sum_pos by simp
    have ylo: "2 powi k \<le> y" using near tlo upos by linarith
    have yhi: "y < 2 powi (k + 1)" using near thi upos by linarith
    have "rnd y = Fin (of_int (round_even (y / ?u)) * ?u)"
      using ylo yhi k1 k2 ypos by (intro rnd_normal) simp_all
    moreover have "round_even (y / ?u) = m"
    proof (rule round_even_near)
      have "y / ?u - of_int m = (y - t) / ?u" using tm upos by (simp add: field_simps)
      then have "\<bar>y / ?u - of_int m\<bar> = \<bar>y - t\<bar> / ?u" using upos by simp
      also have "\<dots> < (?u / 2) / ?u" using near upos by (intro divide_strict_right_mono) simp_all
      also have "\<dots> = 1 / 2" using upos by simp
      finally show "\<bar>y / ?u - of_int m\<bar> < 1 / 2" .
    qed
    ultimately show ?thesis using tm by (simp add: y_def)
  qed
qed

section \<open>Bounds through the operations\<close>

text \<open>
  A product or quotient of finite positive numbers between powers of two stays between the
  corresponding powers of two, as long as these are in the range of the normal doubles.
\<close>

lemma rnd_ge_pow2:
  assumes "2 powi a \<le> x" and "- 1022 \<le> a"
  shows "js_le (Fin (2 powi a)) (rnd x)"
proof (cases x rule: rnd_cases)
  case (finite n)
  have xpos: "0 < x" using assms(1) zero_less_power_int [of "2::real" a] by linarith
  define e where "e = expo x"
  have lo: "2 powi e \<le> x" and hi: "x < 2 powi (e + 1)"
    using expo_bounds [of x] xpos by (simp_all add: e_def)
  have ae: "a \<le> e"
  proof -
    have "(2::real) powi a < 2 powi (e + 1)" using assms(1) hi by linarith
    then have "a < e + 1" by (rule powi2_le_cancel)
    then show ?thesis by simp
  qed
  let ?q = "(2::real) powi (e - 52)"
  have q: "quantum x = ?q" using lo hi ae assms(2) xpos by (intro quantum_normal) simp_all
  have qpos: "0 < ?q" by simp
  have q52: "2 powi 52 * ?q = 2 powi e" by (rule powi2_add') simp
  have "2 powi 52 * ?q \<le> x" using lo q52 by simp
  then have "of_int (2 ^ 52) \<le> x / ?q" using qpos by (simp add: pos_le_divide_eq)
  then have "2 ^ 52 \<le> n" unfolding finite(4) q by (rule round_even_ge)
  then have "of_int (2 ^ 52) \<le> real_of_int n" by (simp only: of_int_le_iff)
  then have "2 powi 52 \<le> real_of_int n" by simp
  then have "2 powi 52 * ?q \<le> real_of_int n * ?q" by (intro mult_right_mono) simp_all
  then have "2 powi e \<le> real_of_int n * ?q" unfolding q52 .
  moreover have "(2::real) powi a \<le> 2 powi e" using ae by (rule powi2_mono)
  ultimately show ?thesis using finite(1) unfolding q by simp
next
  case overflow
  have "0 < x" using assms(1) zero_less_power_int [of "2::real" a] by linarith
  then show ?thesis using overflow by (simp add: inf_of_sign_def)
qed

lemma rnd_pos:
  assumes "2 powi (- 1074) \<le> x"
  shows "js_lt (Fin 0) (rnd x)"
proof (cases "x < 2 powi (- 1022)")
  case True
  have xpos: "0 < x" using assms zero_less_power_int [of "2::real" "- 1074"] by linarith
  let ?q = "(2::real) powi (- 1074)"
  have r: "rnd x = Fin (of_int (round_even (x / ?q)) * ?q)"
    using True xpos by (intro rnd_subnormal) simp
  have "of_int 1 \<le> x / ?q" using assms by (simp add: pos_le_divide_eq)
  then have "1 \<le> round_even (x / ?q)" by (rule round_even_ge)
  then have "0 < real_of_int (round_even (x / ?q))" by simp
  then have "0 < real_of_int (round_even (x / ?q)) * ?q" by (intro mult_pos_pos) simp_all
  then show ?thesis unfolding r by simp
next
  case False
  then have "2 powi (- 1022) \<le> x" by simp
  then have r: "js_le (Fin (2 powi (- 1022))) (rnd x)" by (rule rnd_ge_pow2) simp
  have p: "0 < (2::real) powi (- 1022)" by (rule zero_less_power_int) simp
  show ?thesis
  proof (cases "rnd x")
    case (Fin y)
    then have "2 powi (- 1022) \<le> y" using r by (simp del: power_int_numeral_neg_numeral)
    then have "0 < y" using p by linarith
    then show ?thesis using Fin by simp
  qed (use r in simp_all)
qed

lemma in_rng_rnd:
  assumes "2 powi a \<le> x" and "x \<le> 2 powi b" and "- 1022 \<le> a" and "b \<le> 1022"
  shows "in_rng a b (rnd x)"
  using rnd_range [OF assms] by auto

lemma in_rng_cases:
  assumes "in_rng a b v"
  obtains y where "v = Fin y" and "2 powi a \<le> y" and "y \<le> 2 powi b" and "0 < y"
proof (cases v)
  case (Fin y)
  then have "2 powi a \<le> y" "y \<le> 2 powi b" using assms by simp_all
  moreover have "0 < y" using \<open>2 powi a \<le> y\<close> zero_less_power_int [of "2::real" a] by linarith
  ultimately show ?thesis using Fin by (intro that)
qed (use assms in simp_all)

lemma in_rng_times:
  assumes "in_rng a b u" and "in_rng c d v"
    and "lo = a + c" and "hi = b + d" and "- 1022 \<le> lo" and "hi \<le> 1022"
  shows "in_rng lo hi (u * v)"
proof -
  obtain x where x: "u = Fin x" "2 powi a \<le> x" "x \<le> 2 powi b" "0 < x"
    using assms(1) by (rule in_rng_cases)
  obtain y where y: "v = Fin y" "2 powi c \<le> y" "y \<le> 2 powi d" "0 < y"
    using assms(2) by (rule in_rng_cases)
  have "2 powi a * 2 powi c \<le> x * y" using x y by (intro mult_mono) simp_all
  then have l: "2 powi lo \<le> x * y" unfolding assms(3) powi2_add .
  have "x * y \<le> 2 powi b * 2 powi d" using x y by (intro mult_mono) simp_all
  then have h: "x * y \<le> 2 powi hi" unfolding assms(4) powi2_add .
  show ?thesis unfolding x(1) y(1) times_jsnum.simps using l h assms(5,6) by (rule in_rng_rnd)
qed




lemma in_rng_js:
  assumes "2 powi a \<le> x" and "x \<le> 2 powi b" and "- 1022 \<le> a" and "b \<le> 1022"
  shows "in_rng a b (js x)"
  unfolding js_def using assms by (rule in_rng_rnd)




lemma in_rng_times_zero:
  assumes "in_rng a b v"
  shows "v * Fin 0 = Fin 0"
  using assms by (cases v) simp_all

section \<open>The constants of the program\<close>


lemma ln2_bounds: "1 / 2 \<le> ln (2::real)" "ln (2::real) \<le> 1"
proof -
  have "ln (1 / 2 :: real) \<le> 1 / 2 - 1" by (rule ln_le_minus_one) simp
  moreover have "ln (1 / 2 :: real) = - ln 2" by (simp add: ln_div)
  ultimately show "1 / 2 \<le> ln (2::real)" by simp
  have "ln (2::real) \<le> 2 - 1" by (rule ln_le_minus_one) simp
  then show "ln (2::real) \<le> 1" by simp
qed

lemma in_rng_LN2: "in_rng (- 1) 0 Math_LN2"
  unfolding Math_LN2_def using ln2_bounds by (intro in_rng_rnd) simp_all






lemma in_rng_101: "in_rng 0 1 (js 1.01)"
  by (rule in_rng_js) simp_all

lemma js_le_refl_101: "js_le (js 1.01) (js 1.01)"
  using in_rng_101 by (rule in_rng_cases) simp

lemma js_milli: "js (1 / 10 ^ 3) = Fin (4611686018427388 / 2 ^ 62)"
proof -
  have "rnd (1 / 10 ^ 3) =
      Fin (of_int (round_even ((1 / 10 ^ 3) / 2 powi (- 10 - 52))) * 2 powi (- 10 - 52))"
    by (rule rnd_normal) simp_all
  moreover have "round_even ((1 / 10 ^ 3) / 2 powi (- 10 - 52)) = 4611686018427388"
    by (rule round_even_near) simp
  ultimately show ?thesis by (simp add: js_def)
qed

lemma thousand_milli: "Fin 1000 * js (1 / 10 ^ 3) = Fin 1"
proof -
  let ?x = "1000 * (4611686018427388 / 2 ^ 62) :: real"
  have "rnd ?x = Fin (of_int (round_even (?x / 2 powi (0 - 52))) * 2 powi (0 - 52))"
    by (rule rnd_normal) simp_all
  moreover have "round_even (?x / 2 powi (0 - 52)) = 4503599627370496"
    by (rule round_even_near) simp
  ultimately show ?thesis unfolding js_milli by simp
qed

section \<open>Special values, signs and the two clamps\<close>

lemma plus_NaN_right [simp]: "x + NaN = NaN"
  by (cases x) simp_all

lemma times_zero_div_zero: "(x * Fin 0) / Fin 0 = NaN"
  by (cases x) (simp_all add: inf_of_sign_def)

lemma zero_div_pos:
  assumes "js_lt (Fin 0) v"
  shows "Fin 0 / v = Fin 0"
  using assms by (cases v) simp_all

lemma sqrt_max_ge_1:
  "Math_sqrt (Math_max x (Fin 1)) = NaN \<or> js_le (Fin 1) (Math_sqrt (Math_max x (Fin 1)))"
proof -
  have r: "js_le (Fin 1) (rnd (sqrt s))" if "1 \<le> s" for s
  proof -
    have "2 powi 0 \<le> sqrt s" using that by simp
    then have "js_le (Fin (2 powi 0)) (rnd (sqrt s))" by (rule rnd_ge_pow2) simp
    then show ?thesis by simp
  qed
  show ?thesis
  proof (cases x)
    case (Fin v)
    then show ?thesis using r [of v] r [of 1] by (simp add: not_le)
  next
    case NInf
    then show ?thesis using r [of 1] by simp
  qed simp_all
qed

lemma sqrt_max_NaN_iff: "(Math_sqrt (Math_max x (Fin 1)) = NaN) = (x = NaN)"
proof (cases x)
  case (Fin v)
  then show ?thesis by (simp add: not_le)
qed simp_all

lemma sqrt_max_0:
  "Math_sqrt (Math_max (Fin 0) S) = NaN \<or> js_le (Fin 0) (Math_sqrt (Math_max (Fin 0) S))"
proof (cases S)
  case (Fin s)
  have "js_le (Fin 0) (rnd (sqrt s))" if "0 \<le> s" using that by (intro rnd_nonneg) simp
  then show ?thesis using Fin by simp
qed simp_all

lemma nonneg_sqrt:
  assumes "js_le (Fin 0) S"
  shows "js_le (Fin 0) (Math_sqrt (Math_max (Fin 0) S))"
proof (cases S)
  case (Fin s)
  then have "0 \<le> s" using assms by simp
  then have "js_le (Fin 0) (rnd (sqrt s))" by (intro rnd_nonneg) simp
  then show ?thesis using Fin \<open>0 \<le> s\<close> by simp
qed (use assms in simp_all)

lemma nonneg_plus:
  assumes "js_le (Fin 0) X" and "js_le (Fin 0) Y"
  shows "js_le (Fin 0) (X + Y)"
proof (cases X)
  case (Fin x)
  show ?thesis
  proof (cases Y)
    case (Fin y)
    have "0 \<le> x + y" using assms \<open>X = Fin x\<close> Fin by simp
    then have "js_le (Fin 0) (rnd (x + y))" by (rule rnd_nonneg)
    then show ?thesis using \<open>X = Fin x\<close> Fin by simp
  qed (use assms \<open>X = Fin x\<close> in simp_all)
next
  case PInf
  then show ?thesis using assms by (cases Y) simp_all
qed (use assms in simp_all)

lemma nonneg_divide:
  assumes "js_le (Fin 0) X" and "0 < y"
  shows "js_le (Fin 0) (X / Fin y)"
proof (cases X)
  case (Fin x)
  then have "0 \<le> x / y" using assms by simp
  then have "js_le (Fin 0) (rnd (x / y))" by (rule rnd_nonneg)
  then show ?thesis using Fin assms(2) by simp
qed (use assms in simp_all)

lemma nonneg_square_times:
  assumes "0 < p"
  shows "js_le (Fin 0) (Fin p * Fin g * Fin g)"
proof -
  consider "g = 0" | "0 < g" | "g < 0" by linarith
  then show ?thesis
  proof cases
    case 1
    then show ?thesis by simp
  next
    case 2
    then have "0 \<le> p * g" using assms by simp
    then have r: "js_le (Fin 0) (rnd (p * g))" by (rule rnd_nonneg)
    show ?thesis
    proof (cases "rnd (p * g)")
      case (Fin y)
      then have "0 \<le> y * g" using r 2 by simp
      then have "js_le (Fin 0) (rnd (y * g))" by (rule rnd_nonneg)
      then show ?thesis using Fin by simp
    next
      case PInf
      then show ?thesis using 2 by (simp add: inf_of_sign_def)
    qed (use r in simp_all)
  next
    case 3
    then have "p * g \<le> 0" using assms by (simp add: mult_le_0_iff)
    then have r: "js_le (rnd (p * g)) (Fin 0)" by (rule rnd_nonpos)
    show ?thesis
    proof (cases "rnd (p * g)")
      case (Fin y)
      then have "0 \<le> y * g" using r 3 by (simp add: zero_le_mult_iff)
      then have "js_le (Fin 0) (rnd (y * g))" by (rule rnd_nonneg)
      then show ?thesis using Fin by simp
    next
      case NInf
      then show ?thesis using 3 by (simp add: inf_of_sign_def)
    qed (use r in simp_all)
  qed
qed

section \<open>The calculator and the predictor on numbers of moderate size\<close>

lemma in_rng_a: "in_rng 1 2 (Fin 4 * Math_LN2)"
proof -
  have "in_rng 2 2 (Fin 4)" by simp
  then show ?thesis using in_rng_LN2 by (rule in_rng_times) simp_all
qed

lemma in_rng_aa: "in_rng 2 4 (Fin 4 * Math_LN2 * (Fin 4 * Math_LN2))"
  using in_rng_a in_rng_a by (rule in_rng_times) simp_all

lemma in_rng_aaa: "in_rng 3 6 (Fin 4 * Math_LN2 * (Fin 4 * Math_LN2) * (Fin 4 * Math_LN2))"
  using in_rng_aa in_rng_a by (rule in_rng_times) simp_all








section \<open>The loop of the aggregator and the registry\<close>

lemma totals_loop_append:
  "totals_loop (xs @ ys) lam t = totals_loop ys lam (totals_loop xs lam t)"
  by (induction xs arbitrary: t) simp_all

lemma accumulate_skip_air:
  "type s = ''Air'' \<or> js_le (refractiveIndex s) (js 1.01) \<Longrightarrow> accumulate lam s t = t"
  by (cases t) (simp add: accumulate_def)

lemma accumulate_skip_unknown:
  "getSellmeier (material s) = None \<Longrightarrow> accumulate lam s t = t"
  by (cases t) (simp add: accumulate_def)

lemmas getSellmeier_eval =
  getSellmeier_def MATERIAL_TO_SELLMEIER_def MATERIAL_TO_SELLMEIER_table_def
  SELLMEIER_def SELLMEIER_table_def
  toLowerCase_def toLowerChar_def trim_def isWhiteSpace_def

lemma getSellmeier_unobtainium: "getSellmeier ''unobtainium'' = None"
  by (simp add: getSellmeier_eval)

lemma toLowerChar_idem: "toLowerChar (toLowerChar c) = toLowerChar c"
proof (cases c)
  case (Char b0 b1 b2 b3 b4 b5 b6 b7)
  show ?thesis unfolding Char
    by (cases b0; cases b1; cases b2; cases b3; cases b4; cases b5; cases b6; cases b7;
        simp add: toLowerChar_def Let_def)
qed

lemma toLowerCase_idem: "toLowerCase (toLowerCase s) = toLowerCase s"
  by (simp add: toLowerCase_def toLowerChar_idem)

lemma getSellmeier_lower: "getSellmeier (toLowerCase s) = getSellmeier s"
  by (simp add: getSellmeier_def toLowerCase_idem)

lemma full_names:
  "getSellmeier ''n-bk7'' = SELLMEIER ''N-BK7''" "getSellmeier ''n-sf11'' = SELLMEIER ''N-SF11''"
  "getSellmeier ''n-sf5'' = SELLMEIER ''N-SF5''" "getSellmeier ''n-sf10'' = SELLMEIER ''N-SF10''"
  "getSellmeier ''n-baf10'' = SELLMEIER ''N-BAF10''" "getSellmeier ''n-lak9'' = SELLMEIER ''N-LAK9''"
  by (simp_all add: getSellmeier_eval)

lemma keys_present:
  "SELLMEIER ''N-BK7'' \<noteq> None" "SELLMEIER ''N-SF11'' \<noteq> None" "SELLMEIER ''N-SF5'' \<noteq> None"
  "SELLMEIER ''N-SF10'' \<noteq> None" "SELLMEIER ''N-BAF10'' \<noteq> None" "SELLMEIER ''N-LAK9'' \<noteq> None"
  by (simp_all add: SELLMEIER_def SELLMEIER_table_def)

lemma prefix_absent:
  "getSellmeier ''bk7'' = SELLMEIER ''N-BK7''" "getSellmeier ''sf11'' = SELLMEIER ''N-SF11''"
  "getSellmeier ''baf10'' = SELLMEIER ''N-BAF10''" "getSellmeier ''lak9'' = SELLMEIER ''N-LAK9''"
  by (simp_all add: getSellmeier_eval)

lemma hyphen_absent:
  "getSellmeier ''nbk7'' = SELLMEIER ''N-BK7''"
  "getSellmeier ''nsf11'' = None" "getSellmeier ''nsf5'' = None" "getSellmeier ''nsf10'' = None"
  "getSellmeier ''nbaf10'' = None" "getSellmeier ''nlak9'' = None"
  by (simp_all add: getSellmeier_eval)

section \<open>Properties of the program\<close>

subsection \<open>C1: non-dispersive elements are skipped\<close>

text \<open>
  C1. An element whose type tag is the non-dispersive one (\<^verbatim>\<open>'Air'\<close> in the code) or whose
  nominal refractive index is at most 1.01 adds nothing to the GDD and TOD totals, whatever
  its material and thickness: for every stack, wavelength and pulse duration,
  \<open>computeDispersion\<close> on a stack containing such an element returns the result it returns
  on the stack with that element removed.
\<close>

theorem computeDispersion_skips_non_dispersive:
  "type s = ''Air'' \<or> js_le (refractiveIndex s) (js 1.01) \<Longrightarrow>
   computeDispersion (xs @ s # ys) lam tau = computeDispersion (xs @ ys) lam tau"
  by (simp add: computeDispersion_def totals_loop_append accumulate_skip_air)

theorem computeDispersion_skips_non_dispersive_witness:
  "(type \<lparr> thickness = Fin 5, material = ''N-BK7'', type = ''Air'',
            refractiveIndex = js 1.5168 \<rparr> = ''Air''
    \<and> computeDispersion
         [\<lparr> thickness = Fin 6, material = ''Fused Silica'', type = ''Glass'',
             refractiveIndex = js 1.458 \<rparr>,
          \<lparr> thickness = Fin 5, material = ''N-BK7'', type = ''Air'',
             refractiveIndex = js 1.5168 \<rparr>]
         (Fin 800) (Fin 100)
      = computeDispersion
         [\<lparr> thickness = Fin 6, material = ''Fused Silica'', type = ''Glass'',
             refractiveIndex = js 1.458 \<rparr>]
         (Fin 800) (Fin 100))
   \<and> (js_le (refractiveIndex \<lparr> thickness = Fin 5, material = ''N-BK7'', type = ''Glass'',
                                refractiveIndex = js 1.01 \<rparr>) (js 1.01)
    \<and> computeDispersion
         [\<lparr> thickness = Fin 5, material = ''N-BK7'', type = ''Glass'',
             refractiveIndex = js 1.01 \<rparr>]
         (Fin 800) (Fin 100)
      = computeDispersion [] (Fin 800) (Fin 100))"
proof -
  let ?air = "\<lparr> thickness = Fin 5, material = ''N-BK7'', type = ''Air'',
                refractiveIndex = js 1.5168 \<rparr>"
  let ?low = "\<lparr> thickness = Fin 5, material = ''N-BK7'', type = ''Glass'',
                refractiveIndex = js 1.01 \<rparr>"
  let ?fs = "\<lparr> thickness = Fin 6, material = ''Fused Silica'', type = ''Glass'',
               refractiveIndex = js 1.458 \<rparr>"
  have a: "type ?air = ''Air'' \<or> js_le (refractiveIndex ?air) (js 1.01)" by simp
  have b: "type ?low = ''Air'' \<or> js_le (refractiveIndex ?low) (js 1.01)"
    using js_le_refl_101 by simp
  show ?thesis
    using computeDispersion_skips_non_dispersive [OF a, of "[?fs]" "[]" "Fin 800" "Fin 100"]
      computeDispersion_skips_non_dispersive [OF b, of "[]" "[]" "Fin 800" "Fin 100"]
      js_le_refl_101
    by simp
qed

subsection \<open>C2: the refractive index evaluator\<close>

text \<open>
  C2 as stated: for every wavelength and every coefficient set the returned index is at
  least 1. It fails at a pole of the Sellmeier sum where a term is \<open>0 / 0\<close>: with the
  third term unused (\<open>B\<^sub>3 = 0\<close>) and \<open>C\<^sub>3 = 1\<close>, the wavelength 1000 nm gives \<open>lam2 = 1\<close>
  (the product of 1000 and the double \<^verbatim>\<open>1e-3\<close> rounds to 1), the term
  \<open>(0 \<cdot> 1) / (1 - 1)\<close> is NaN, \<^verbatim>\<open>Math.max(NaN, 1)\<close> is NaN, and NaN is returned.
\<close>

theorem nFromSellmeier_pole_counterexample:
  "nFromSellmeier (Fin 1000) \<lparr> B = (Fin 1, Fin 1, Fin 0), C = (js 0.01, js 0.02, Fin 1) \<rparr> = NaN
   \<and> \<not> js_le (Fin 1)
        (nFromSellmeier (Fin 1000) \<lparr> B = (Fin 1, Fin 1, Fin 0), C = (js 0.01, js 0.02, Fin 1) \<rparr>)"
proof -
  have one: "rnd 1 = Fin 1" using rnd_of_int [of 1] by simp
  have "nFromSellmeier (Fin 1000) \<lparr> B = (Fin 1, Fin 1, Fin 0), C = (js 0.01, js 0.02, Fin 1) \<rparr> = NaN"
    unfolding nFromSellmeier_def Let_def thousand_milli
    by (simp add: one inf_of_sign_def)
  then show ?thesis by simp
qed

text \<open>
  C2, amended. For every wavelength and every coefficient set, \<open>nFromSellmeier\<close>
  multiplies the wavelength by the double \<^verbatim>\<open>1e-3\<close>, computes in double arithmetic
  \<open>n2 = 1 + \<Sum> B\<^sub>i lam2 / (lam2 - C\<^sub>i)\<close> for \<open>i = 1, 2, 3\<close>, and returns the square root of the
  larger of \<open>n2\<close> and 1. The result is NaN exactly when \<open>n2\<close> is NaN (a term \<open>0 / 0\<close> or
  \<open>\<infinity> / \<infinity>\<close>, terms \<open>+\<infinity>\<close> and \<open>-\<infinity>\<close>, a NaN input), and it is at least 1 otherwise.
\<close>

theorem nFromSellmeier_clamp:
  "(let lam2 = lam * js (1 / 10 ^ 3) * (lam * js (1 / 10 ^ 3));
        n2 = Fin 1 + (at3 (B cf) 0 * lam2) / (lam2 - at3 (C cf) 0)
                   + (at3 (B cf) 1 * lam2) / (lam2 - at3 (C cf) 1)
                   + (at3 (B cf) 2 * lam2) / (lam2 - at3 (C cf) 2)
    in nFromSellmeier lam cf = Math_sqrt (Math_max n2 (Fin 1))
       \<and> (nFromSellmeier lam cf = NaN) = (n2 = NaN)
       \<and> (nFromSellmeier lam cf = NaN \<or> js_le (Fin 1) (nFromSellmeier lam cf)))"
proof -
  define lam2 where "lam2 = lam * js (1 / 10 ^ 3) * (lam * js (1 / 10 ^ 3))"
  define n2 where "n2 = Fin 1 + (at3 (B cf) 0 * lam2) / (lam2 - at3 (C cf) 0)
                   + (at3 (B cf) 1 * lam2) / (lam2 - at3 (C cf) 1)
                   + (at3 (B cf) 2 * lam2) / (lam2 - at3 (C cf) 2)"
  have e: "nFromSellmeier lam cf = Math_sqrt (Math_max n2 (Fin 1))"
    unfolding nFromSellmeier_def Let_def n2_def lam2_def by (simp add: numeral_2_eq_2)
  have "(nFromSellmeier lam cf = NaN) = (n2 = NaN)" unfolding e by (rule sqrt_max_NaN_iff)
  moreover have "nFromSellmeier lam cf = NaN \<or> js_le (Fin 1) (nFromSellmeier lam cf)"
    unfolding e by (rule sqrt_max_ge_1)
  ultimately show ?thesis unfolding Let_def using e by (simp add: n2_def lam2_def)
qed

subsection \<open>C3: the derivative estimator\<close>

text \<open>
  C3. With the fixed step \<open>h = 0.5\<close> nm, the second-derivative estimator is the symmetric
  three-point stencil on \<open>n\<close>, \<open>(n(\<lambda> + h) - 2 n(\<lambda>) + n(\<lambda> - h)) / h\<^sup>2\<close>, and the
  third-derivative estimator is the symmetric two-point stencil on the second-derivative
  estimator, \<open>(d2n(\<lambda> + h) - d2n(\<lambda> - h)) / (2 h)\<close>: a difference of two three-point
  stencils, each evaluated on \<open>n\<close> at its own three points (third conjunct).
\<close>

theorem derivative_stencils:
  "d2n_dlambda2 lam cf =
     (nFromSellmeier (lam + Fin (1 / 2)) cf - Fin 2 * nFromSellmeier lam cf
        + nFromSellmeier (lam - Fin (1 / 2)) cf) / (Fin (1 / 2) * Fin (1 / 2))
   \<and> d3n_dlambda3 lam cf =
     (d2n_dlambda2 (lam + Fin (1 / 2)) cf - d2n_dlambda2 (lam - Fin (1 / 2)) cf)
        / (Fin 2 * Fin (1 / 2))
   \<and> d3n_dlambda3 lam cf =
     ((nFromSellmeier (lam + Fin (1 / 2) + Fin (1 / 2)) cf
         - Fin 2 * nFromSellmeier (lam + Fin (1 / 2)) cf
         + nFromSellmeier (lam + Fin (1 / 2) - Fin (1 / 2)) cf) / (Fin (1 / 2) * Fin (1 / 2))
      - (nFromSellmeier (lam - Fin (1 / 2) + Fin (1 / 2)) cf
         - Fin 2 * nFromSellmeier (lam - Fin (1 / 2)) cf
         + nFromSellmeier (lam - Fin (1 / 2) - Fin (1 / 2)) cf) / (Fin (1 / 2) * Fin (1 / 2)))
        / (Fin 2 * Fin (1 / 2))"
  unfolding d2n_dlambda2_def d3n_dlambda3_def DEL_def Let_def by (intro conjI refl)

subsection \<open>C4: GDD is linear in the path length\<close>




subsection \<open>C5: no dispersion, no broadening\<close>

text \<open>
  C5 as stated: for every input pulse duration \<open>tau > 0\<close>, zero total GDD and TOD give
  back the input duration. It fails for a small duration: for \<open>tau = 2\<^sup>-\<^sup>6\<^sup>0\<^sup>0\<close> the square
  \<^verbatim>\<open>tau2\<close> underflows to 0, the quotient \<open>0 / 0\<close> is NaN, and NaN is returned.
\<close>

theorem predictedExitPulseWidthFs_underflow_counterexample:
  "is_double (2 powi (- 600)) \<and> js_lt (Fin 0) (Fin (2 powi (- 600)))
   \<and> predictedExitPulseWidthFs (Fin (2 powi (- 600))) (Fin 0) (Fin 0) = NaN
   \<and> predictedExitPulseWidthFs (Fin (2 powi (- 600))) (Fin 0) (Fin 0) \<noteq> Fin (2 powi (- 600))"
proof -
  have "rnd (of_int 1 * 2 powi (- 600)) = Fin (of_int 1 * 2 powi (- 600))"
  proof (rule rnd_scaled_int)
    have "(2::real) powi (- 600) < 2 powi 1024" by (rule powi2_strict_mono) simp
    then show "\<bar>real_of_int 1 * 2 powi (- 600)\<bar> < 2 powi 1024"
      by (simp del: power_int_numeral power_int_numeral_neg_numeral)
  qed simp_all
  then have d: "is_double (2 powi (- 600))"
    unfolding is_double_def by (simp del: power_int_numeral_neg_numeral)
  have pos: "0 < (2::real) powi (- 600)" by (rule zero_less_power_int) simp
  have "(2::real) powi (- 600) * 2 powi (- 600) = 2 powi (- 1200)" by (rule powi2_add') simp
  moreover have "(2::real) powi (- 1200) < 2 powi (- 1075)" by (rule powi2_strict_mono) simp
  ultimately have "\<bar>2 powi (- 600) * 2 powi (- 600)\<bar> < (2::real) powi (- 1075)"
    by (simp del: power_int_numeral_neg_numeral)
  then have "rnd (2 powi (- 600) * 2 powi (- 600)) = Fin 0" by (rule rnd_tiny)
  then have tau2: "Fin (2 powi (- 600)) * Fin (2 powi (- 600)) = Fin 0" by simp
  have "predictedExitPulseWidthFs (Fin (2 powi (- 600))) (Fin 0) (Fin 0) = NaN"
    unfolding predictedExitPulseWidthFs_def Let_def tau2 times_zero_div_zero by simp
  then show ?thesis using d pos by (simp del: power_int_numeral_neg_numeral)
qed

text \<open>
  C5, amended. For every input pulse duration \<open>tau\<close> that is a double with
  \<open>2\<^sup>-\<^sup>2\<^sup>6\<^sup>8 \<le> tau < 2\<^sup>5\<^sup>1\<^sup>1\<close> (about \<open>2.2 \<cdot> 10\<^sup>-\<^sup>8\<^sup>1\<close> to \<open>6.7 \<cdot> 10\<^sup>1\<^sup>5\<^sup>3\<close>), zero total GDD
  and zero total TOD give back the input duration exactly: the square of \<open>tau\<close> and its
  fourth power neither underflow to zero nor overflow, and the correctly rounded square
  root of the rounded square of a double is that double.
\<close>

theorem predictedExitPulseWidthFs_no_dispersion:
  assumes d: "is_double t" and lo: "2 powi (- 268) \<le> t" and hi: "t < 2 powi 511"
  shows "predictedExitPulseWidthFs (Fin t) (Fin 0) (Fin 0) = Fin t"
proof -
  have tpos: "0 < t" using lo zero_less_power_int [of "2::real" "- 268"] by linarith
  have "2 powi (- 268) * 2 powi (- 268) \<le> t * t" using lo by (intro mult_mono) simp_all
  moreover have "(2::real) powi (- 268) * 2 powi (- 268) = 2 powi (- 536)" by (rule powi2_add') simp
  ultimately have l2: "2 powi (- 536) \<le> t * t" by simp
  have "t * t \<le> 2 powi 511 * 2 powi 511" using hi tpos by (intro mult_mono) simp_all
  moreover have "(2::real) powi 511 * 2 powi 511 = 2 powi 1022" by (rule powi2_add') simp
  ultimately have h2: "t * t \<le> 2 powi 1022" by simp
  obtain t2 where t2: "rnd (t * t) = Fin t2" and t2lo: "2 powi (- 536) \<le> t2"
    using rnd_range [OF l2 h2] by auto
  have t2pos: "0 < t2" using t2lo zero_less_power_int [of "2::real" "- 536"] by linarith
  have tau2: "Fin t * Fin t = Fin t2" using t2 by simp
  have gdd: "(Fin 4 * Math_LN2 * (Fin 4 * Math_LN2) * Fin 0 * Fin 0) / Fin t2 = Fin 0"
    using t2pos by (simp add: in_rng_times_zero [OF in_rng_aa])
  have "2 powi (- 536) * 2 powi (- 536) \<le> t2 * t2" using t2lo by (intro mult_mono) simp_all
  moreover have "(2::real) powi (- 536) * 2 powi (- 536) = 2 powi (- 1072)" by (rule powi2_add') simp
  moreover have "(2::real) powi (- 1074) \<le> 2 powi (- 1072)" by (rule powi2_mono) simp
  ultimately have "2 powi (- 1074) \<le> t2 * t2" by linarith
  then have "js_lt (Fin 0) (rnd (t2 * t2))" by (rule rnd_pos)
  then have "Fin 0 / (Fin t2 * Fin t2) = Fin 0" by (simp add: zero_div_pos)
  then have tod: "(Fin 4 * Math_LN2 * (Fin 4 * Math_LN2) * (Fin 4 * Math_LN2) * Fin 0 * Fin 0)
      / (Fin t2 * Fin t2) = Fin 0"
    by (simp only: in_rng_times_zero [OF in_rng_aaa]) simp
  have idem: "rnd t2 = Fin t2" using t2 by (rule rnd_idem)
  have sum: "Fin t2 + Fin 0 + Fin 0 = Fin t2" using idem by simp
  have "(2::real) powi (- 511) \<le> 2 powi (- 268)" by (rule powi2_mono) simp
  then have "2 powi (- 511) \<le> t" using lo by linarith
  then have "rnd (sqrt t2) = Fin t"
    using d hi t2 unfolding is_double_def by (intro rnd_sqrt_square) simp_all
  then show ?thesis
    unfolding predictedExitPulseWidthFs_def Let_def tau2 gdd tod sum
    using t2pos by simp
qed

theorem predictedExitPulseWidthFs_no_dispersion_witness:
  "is_double 100 \<and> 2 powi (- 268) \<le> (100::real) \<and> (100::real) < 2 powi 511
   \<and> predictedExitPulseWidthFs (Fin 100) (Fin 0) (Fin 0) = Fin 100"
proof -
  have d: "is_double 100" unfolding is_double_def using rnd_of_int [of 100] by simp
  have lo: "2 powi (- 268) \<le> (100::real)"
    using powi2_mono [of "- 268" 0] by simp
  have hi: "(100::real) < 2 powi 511"
    using powi2_mono [of 7 511] by simp
  from predictedExitPulseWidthFs_no_dispersion [OF d lo hi] d lo hi show ?thesis by blast
qed

subsection \<open>C6: the floor of the predictor\<close>

text \<open>
  C6 as stated: for every input duration \<open>tau \<ge> 0\<close>, zero included, the predictor returns
  a non-negative real number. It fails at \<open>tau = 0\<close> with zero totals: \<^verbatim>\<open>tau2\<close> is 0, both
  quotients are \<open>0 / 0\<close>, and \<^verbatim>\<open>Math.sqrt(Math.max(0, NaN))\<close> is NaN, which is neither a
  real number nor at least 0.
\<close>

theorem predictedExitPulseWidthFs_zero_duration_counterexample:
  "js_le (Fin 0) (Fin 0)
   \<and> predictedExitPulseWidthFs (Fin 0) (Fin 0) (Fin 0) = NaN
   \<and> \<not> finite_nonneg (predictedExitPulseWidthFs (Fin 0) (Fin 0) (Fin 0))
   \<and> \<not> js_le (Fin 0) (predictedExitPulseWidthFs (Fin 0) (Fin 0) (Fin 0))"
proof -
  have tau2: "Fin 0 * Fin 0 = Fin 0" by simp
  have "predictedExitPulseWidthFs (Fin 0) (Fin 0) (Fin 0) = NaN"
    unfolding predictedExitPulseWidthFs_def Let_def tau2 times_zero_div_zero by simp
  then show ?thesis by simp
qed

text \<open>
  C6, amended. For every finite input duration \<open>t\<close> whose fourth power, computed as
  \<^verbatim>\<open>tau2 * tau2\<close>, is finite and not zero (it neither overflows nor underflows to zero;
  this excludes \<open>t = 0\<close>), and for all finite totals, the predictor returns a number that
  is at least 0; it is \<open>+\<infinity>\<close> when a term overflows. For every input whatsoever the result
  is either NaN or at least 0.
\<close>

theorem predictedExitPulseWidthFs_never_negative:
  assumes "Fin t * Fin t * (Fin t * Fin t) = Fin t4" and "t4 \<noteq> 0"
  shows "js_le (Fin 0) (predictedExitPulseWidthFs (Fin t) (Fin g) (Fin d))
         \<and> (predictedExitPulseWidthFs tau G D = NaN
            \<or> js_le (Fin 0) (predictedExitPulseWidthFs tau G D))"
proof -
  have r: "js_le (Fin 0) (rnd (t * t))" by (rule rnd_nonneg) simp
  obtain t2 where t2: "Fin t * Fin t = Fin t2" and t2pos: "0 < t2"
  proof (cases "rnd (t * t)")
    case (Fin y)
    have "y \<noteq> 0" using assms Fin by auto
    moreover have "0 \<le> y" using r Fin by simp
    ultimately show ?thesis using Fin that by simp
  qed (use assms r in simp_all)
  have "Fin t2 * Fin t2 = Fin t4" using assms(1) t2 by simp
  moreover have "js_le (Fin 0) (rnd (t2 * t2))" by (rule rnd_nonneg) simp
  ultimately have t4pos: "0 < t4" using assms(2) by simp
  obtain p where p: "Fin 4 * Math_LN2 * (Fin 4 * Math_LN2) = Fin p" "0 < p"
    using in_rng_aa by (rule in_rng_cases)
  obtain q where q: "Fin 4 * Math_LN2 * (Fin 4 * Math_LN2) * (Fin 4 * Math_LN2) = Fin q" "0 < q"
    using in_rng_aaa by (rule in_rng_cases)
  have g: "js_le (Fin 0) ((Fin 4 * Math_LN2 * (Fin 4 * Math_LN2) * Fin g * Fin g) / Fin t2)"
    unfolding p(1) using p(2) t2pos by (intro nonneg_divide nonneg_square_times)
  have d: "js_le (Fin 0)
      ((Fin 4 * Math_LN2 * (Fin 4 * Math_LN2) * (Fin 4 * Math_LN2) * Fin d * Fin d) / Fin t4)"
    unfolding q(1) using q(2) t4pos by (intro nonneg_divide nonneg_square_times)
  have "js_le (Fin 0) (Fin t2)" using t2pos by simp
  then have "js_le (Fin 0) (predictedExitPulseWidthFs (Fin t) (Fin g) (Fin d))"
    unfolding predictedExitPulseWidthFs_def Let_def t2 \<open>Fin t2 * Fin t2 = Fin t4\<close>
    using g d by (intro nonneg_sqrt nonneg_plus)
  moreover have "predictedExitPulseWidthFs tau G D = NaN
      \<or> js_le (Fin 0) (predictedExitPulseWidthFs tau G D)"
    unfolding predictedExitPulseWidthFs_def Let_def by (rule sqrt_max_0)
  ultimately show ?thesis by simp
qed

theorem predictedExitPulseWidthFs_never_negative_witness:
  "Fin 100 * Fin 100 * (Fin 100 * Fin 100) = Fin 100000000 \<and> (100000000::real) \<noteq> 0
   \<and> js_le (Fin 0) (predictedExitPulseWidthFs (Fin 100) (Fin 217) (Fin 165))"
proof -
  have h: "Fin 100 * Fin 100 * (Fin 100 * Fin 100) = Fin 100000000"
    using rnd_of_int [of 10000] rnd_of_int [of 100000000] by simp
  have n: "(100000000::real) \<noteq> 0" by simp
  from predictedExitPulseWidthFs_never_negative [OF h n, of 217 165] h n show ?thesis by blast
qed

subsection \<open>C7: unknown materials are skipped\<close>

text \<open>
  C7. An element whose material string does not resolve in the registry is skipped:
  for every stack, wavelength and pulse duration, \<open>computeDispersion\<close> on a stack
  containing it returns the result it returns on the stack without it. This holds for
  every type tag of the element, \<^verbatim>\<open>'dispersive'\<close> in particular; \<open>computeDispersion\<close> is
  a total function, so no error is raised.
\<close>

theorem computeDispersion_skips_unknown_material:
  "getSellmeier (material s) = None \<Longrightarrow>
   computeDispersion (xs @ s # ys) lam tau = computeDispersion (xs @ ys) lam tau"
  by (simp add: computeDispersion_def totals_loop_append accumulate_skip_unknown)

theorem computeDispersion_skips_unknown_material_witness:
  "getSellmeier (material \<lparr> thickness = Fin 5, material = ''unobtainium'',
                            type = ''dispersive'', refractiveIndex = js 1.6 \<rparr>) = None
   \<and> computeDispersion
        [\<lparr> thickness = Fin 5, material = ''unobtainium'', type = ''dispersive'',
            refractiveIndex = js 1.6 \<rparr>]
        (Fin 800) (Fin 100)
     = computeDispersion [] (Fin 800) (Fin 100)
   \<and> computeDispersion
        [\<lparr> thickness = Fin 6, material = ''Fused Silica'', type = ''Glass'',
            refractiveIndex = js 1.458 \<rparr>,
         \<lparr> thickness = Fin 5, material = ''unobtainium'', type = ''dispersive'',
            refractiveIndex = js 1.6 \<rparr>]
        (Fin 800) (Fin 100)
     = computeDispersion
        [\<lparr> thickness = Fin 6, material = ''Fused Silica'', type = ''Glass'',
            refractiveIndex = js 1.458 \<rparr>]
        (Fin 800) (Fin 100)"
proof -
  let ?u = "\<lparr> thickness = Fin 5, material = ''unobtainium'', type = ''dispersive'',
              refractiveIndex = js 1.6 \<rparr>"
  let ?fs = "\<lparr> thickness = Fin 6, material = ''Fused Silica'', type = ''Glass'',
               refractiveIndex = js 1.458 \<rparr>"
  have h: "getSellmeier (material ?u) = None"
    by (simp add: getSellmeier_unobtainium)
  show ?thesis
    using h computeDispersion_skips_unknown_material [OF h, of "[]" "[]" "Fin 800" "Fin 100"]
      computeDispersion_skips_unknown_material [OF h, of "[?fs]" "[]" "Fin 800" "Fin 100"]
    by simp
qed

subsection \<open>C8: name variants accepted by the registry\<close>

text \<open>
  C8 as stated: every registry glass whose key carries the prefix \<^verbatim>\<open>N-\<close> resolves with
  the prefix present or absent and with the hyphen present or absent. The alias table
  lists the names one by one and has no hyphen-less form of \<^verbatim>\<open>N-SF11\<close>: the name
  \<^verbatim>\<open>N-SF11\<close> resolves and \<^verbatim>\<open>nsf11\<close> does not.
\<close>

theorem getSellmeier_hyphen_counterexample:
  "getSellmeier ''nsf11'' = None \<and> getSellmeier ''N-SF11'' \<noteq> None
   \<and> getSellmeier ''nsf11'' \<noteq> getSellmeier ''N-SF11''"
  by (simp add: getSellmeier_eval)

text \<open>
  C8, amended. Name matching is case-insensitive: a name resolves as its lower-case form
  does. Each of the six registry glasses with the prefix \<^verbatim>\<open>N-\<close> resolves to the
  coefficient set of its key under its full name. With the prefix absent, N-BK7, N-SF11,
  N-BAF10 and N-LAK9 resolve to the same coefficient set. With the hyphen absent and the
  prefix kept, N-BK7 resolves (\<^verbatim>\<open>nbk7\<close>) and the other five do not.
\<close>

theorem getSellmeier_name_variants:
  "getSellmeier (toLowerCase s) = getSellmeier s
   \<and> getSellmeier ''n-bk7'' = SELLMEIER ''N-BK7'' \<and> getSellmeier ''n-sf11'' = SELLMEIER ''N-SF11''
   \<and> getSellmeier ''n-sf5'' = SELLMEIER ''N-SF5'' \<and> getSellmeier ''n-sf10'' = SELLMEIER ''N-SF10''
   \<and> getSellmeier ''n-baf10'' = SELLMEIER ''N-BAF10''
   \<and> getSellmeier ''n-lak9'' = SELLMEIER ''N-LAK9''
   \<and> SELLMEIER ''N-BK7'' \<noteq> None \<and> SELLMEIER ''N-SF11'' \<noteq> None \<and> SELLMEIER ''N-SF5'' \<noteq> None
   \<and> SELLMEIER ''N-SF10'' \<noteq> None \<and> SELLMEIER ''N-BAF10'' \<noteq> None
   \<and> SELLMEIER ''N-LAK9'' \<noteq> None
   \<and> getSellmeier ''bk7'' = SELLMEIER ''N-BK7'' \<and> getSellmeier ''sf11'' = SELLMEIER ''N-SF11''
   \<and> getSellmeier ''baf10'' = SELLMEIER ''N-BAF10'' \<and> getSellmeier ''lak9'' = SELLMEIER ''N-LAK9''
   \<and> getSellmeier ''nbk7'' = SELLMEIER ''N-BK7''
   \<and> getSellmeier ''nsf11'' = None \<and> getSellmeier ''nsf5'' = None
   \<and> getSellmeier ''nsf10'' = None \<and> getSellmeier ''nbaf10'' = None
   \<and> getSellmeier ''nlak9'' = None"
  by (intro conjI getSellmeier_lower full_names keys_present prefix_absent hyphen_absent)

text \<open>
  The prefix-less names \<^verbatim>\<open>sf5\<close> and \<^verbatim>\<open>sf10\<close>, which the table of nominal indices
  \<^verbatim>\<open>MATERIAL_INDEX\<close> lists beside \<^verbatim>\<open>n-sf5\<close> and \<^verbatim>\<open>n-sf10\<close>, are not in the alias table
  of the registry.
\<close>

lemma getSellmeier_sf5_sf10: "getSellmeier ''sf5'' = None" "getSellmeier ''sf10'' = None"
  by (simp_all add: getSellmeier_eval)

subsection \<open>C9: the fallback index\<close>

text \<open>
  C9. When the material string does not resolve in the registry,
  \<open>refractiveIndexAtWavelength\<close> returns the fallback index \<open>nDefault\<close> it was given, for
  every wavelength: no coefficient set is substituted.
\<close>

theorem refractiveIndexAtWavelength_unknown:
  "getSellmeier m = None \<Longrightarrow> refractiveIndexAtWavelength lambdaNm m nDefault = nDefault"
  by (simp add: refractiveIndexAtWavelength_def)

theorem refractiveIndexAtWavelength_unknown_witness:
  "getSellmeier ''unobtainium'' = None \<and>
   refractiveIndexAtWavelength (Fin 800) ''unobtainium'' (Fin 1.5) = Fin 1.5"
  using refractiveIndexAtWavelength_unknown [of "''unobtainium''" "Fin 800" "Fin 1.5"]
    getSellmeier_unobtainium
  by simp

subsection \<open>C10: the totals do not depend on the pulse duration\<close>

text \<open>
  C10. For every stack and wavelength and any two input pulse durations, the results of
  \<open>computeDispersion\<close> have the same total GDD and the same total TOD: the pulse duration
  reaches the predicted exit pulse width only.
\<close>

theorem computeDispersion_totals_independent_of_pulse:
  "gddFs2_of (computeDispersion xs lam tau1) = gddFs2_of (computeDispersion xs lam tau2)
   \<and> todFs3_of (computeDispersion xs lam tau1) = todFs3_of (computeDispersion xs lam tau2)"
  by (simp add: computeDispersion_def Let_def split: prod.splits)

end
